theory Spec2Isabelle
  imports Main "HOL-Library.Sublist"
begin

section \<open>Python string primitives used by getdata.py\<close>

text \<open>
  Python strings are modelled as HOL strings (lists of characters); the functions below
  that do not look at particular characters are polymorphic in the element type.
  \<^verbatim>\<open>s.split(sep)\<close> with a one-character separator: the pieces between the separators,
  always at least one piece.
\<close>

fun str_split :: "'a \<Rightarrow> 'a list \<Rightarrow> 'a list list" where
  "str_split sep [] = [[]]"
| "str_split sep (c # cs) =
     (if c = sep then [] # str_split sep cs
      else (case str_split sep cs of
              [] \<Rightarrow> [[c]]
            | w # ws \<Rightarrow> (c # w) # ws))"

text \<open>
  \<^verbatim>\<open>s.replace(old, new)\<close>: a left-to-right scan that replaces each match of \<open>old\<close> and
  continues after it, so that matches never overlap. With an empty \<open>old\<close> Python puts
  \<open>new\<close> in front of every character and at the end.
\<close>

fun str_replace :: "'a list \<Rightarrow> 'a list \<Rightarrow> 'a list \<Rightarrow> 'a list" where
  "str_replace old new [] = (if old = [] then new else [])"
| "str_replace old new (c # cs) =
     (if old = [] then new @ c # str_replace old new cs
      else if prefix old (c # cs) then new @ str_replace old new (drop (length old - 1) cs)
      else c # str_replace old new cs)"

text \<open>
  \<^verbatim>\<open>s.rsplit(sep, 1)\<close>: split once, at the last separator; a string without the
  separator is returned whole.
\<close>

definition str_rsplit1 :: "'a \<Rightarrow> 'a list \<Rightarrow> 'a list list" where
  "str_rsplit1 sep s =
     (if sep \<in> set s
      then [rev (tl (dropWhile (\<lambda>c. c \<noteq> sep) (rev s))),
            rev (takeWhile (\<lambda>c. c \<noteq> sep) (rev s))]
      else [s])"

text \<open>\<^verbatim>\<open>sep.join(xs)\<close>.\<close>

fun str_join :: "'a list \<Rightarrow> 'a list list \<Rightarrow> 'a list" where
  "str_join sep [] = []"
| "str_join sep [x] = x"
| "str_join sep (x # y # ys) = x @ sep @ str_join sep (y # ys)"

text \<open>
  \<^verbatim>\<open>str.isspace\<close> on the characters below code point 256: tab, line feed, vertical tab,
  form feed, carriage return, the four separators 0x1C to 0x1F, space, 0x85 and 0xA0.
\<close>

definition whitespace :: string where
  "whitespace = [CHR 0x09, CHR 0x0A, CHR 0x0B, CHR 0x0C, CHR 0x0D,
                 CHR 0x1C, CHR 0x1D, CHR 0x1E, CHR 0x1F, CHR 0x20, CHR 0x85, CHR 0xA0]"

definition isspace :: "char \<Rightarrow> bool" where
  "isspace c = (c \<in> set whitespace)"

text \<open>
  \<^verbatim>\<open>s.split()\<close> without a separator: the maximal runs of non-whitespace characters,
  in order; no empty piece. \<open>cur\<close> is the word being read.
\<close>

fun split_words :: "string \<Rightarrow> string \<Rightarrow> string list" where
  "split_words cur [] = (if cur = [] then [] else [cur])"
| "split_words cur (c # cs) =
     (if isspace c then (if cur = [] then split_words [] cs else cur # split_words [] cs)
      else split_words (cur @ [c]) cs)"

definition str_split_ws :: "string \<Rightarrow> string list" where
  "str_split_ws s = split_words [] s"

text \<open>A string without whitespace.\<close>

definition no_space :: "string \<Rightarrow> bool" where
  "no_space w = (\<forall>c\<in>set w. \<not> isspace c)"

text \<open>\<^verbatim>\<open>s.strip(chars)\<close>: drops the characters of \<open>chars\<close> from both ends.\<close>

definition str_strip :: "'a list \<Rightarrow> 'a list \<Rightarrow> 'a list" where
  "str_strip chars s =
     rev (dropWhile (\<lambda>c. c \<in> set chars) (rev (dropWhile (\<lambda>c. c \<in> set chars) s)))"

text \<open>\<^verbatim>\<open>str(n)\<close> for an integer: its decimal digits, with a minus sign when negative.\<close>

definition digit_char :: "nat \<Rightarrow> char" where
  "digit_char d = ''0123456789'' ! (d mod 10)"

function str_nat :: "nat \<Rightarrow> string" where
  "str_nat n = (if n < 10 then [digit_char n] else str_nat (n div 10) @ [digit_char (n mod 10)])"
  by pat_completeness auto
termination
  by (relation "measure id") auto

declare str_nat.simps [simp del]

definition py_str :: "int \<Rightarrow> string" where
  "py_str i = (if i < 0 then CHR ''-'' # str_nat (nat (- i)) else str_nat (nat i))"

text \<open>\<^verbatim>\<open>max(xs)\<close> on a non-empty list, as a left-to-right scan.\<close>

fun py_max :: "int \<Rightarrow> int list \<Rightarrow> int" where
  "py_max m [] = m"
| "py_max m (x # xs) = py_max (if m < x then x else m) xs"

text \<open>
  \<^verbatim>\<open>os.path.join(a, b)\<close> on POSIX: an absolute \<open>b\<close> replaces \<open>a\<close>; otherwise the two are
  joined by one slash unless \<open>a\<close> is empty or ends in a slash already.
\<close>

definition path_join :: "string \<Rightarrow> string \<Rightarrow> string" where
  "path_join a b =
     (if prefix ''/'' b then b
      else if a = [] \<or> suffix ''/'' a then a @ b
      else a @ ''/'' @ b)"

section \<open>The outside world\<close>

text \<open>
  The HTTP client, the HTML parser and the file system are not part of the program.
  A parsed page is represented by the answers to the queries that the program puts to
  it; a run is the list of its requests and file operations together with the way it ends.
\<close>

datatype json =
    JNull
  | JBool bool
  | JNum int
  | JStr string
  | JArr "json list"
  | JObj "(string \<times> json) list"

datatype exn =
    AttributeError
  | TypeError
  | KeyError
  | JSONDecodeError
  | RequestException

text \<open>
  The ways a run ends early: \<^verbatim>\<open>sys.exit(msg)\<close>, which prints the message and ends the
  process with status 1; \<^verbatim>\<open>sys.exit(n)\<close>, which ends it with status \<open>n\<close>; an exception
  that nothing catches.
\<close>

datatype abort =
    SystemExit_msg string
  | SystemExit_code int
  | Uncaught exn

text \<open>
  A list item of a listing page: without an anchor, or with an anchor whose \<open>href\<close>
  attribute may be missing.
\<close>

datatype li = NoAnchor | Anchor "string option"

text \<open>
  What the program asks of a parsed page: the texts of all list items, as code points
  (see the Year Resolver); the list items of
  the \<open>container-fluid\<close> division (\<open>None\<close> when there is no such division); the text of
  the paragraph that follows the heading \<open>Abstract\<close> (\<open>None\<close> when the heading or the
  paragraph is missing); the \<open>citation_title\<close> meta tag (\<open>None\<close> when missing, \<open>Some None\<close>
  when it has no \<open>content\<close>); the \<open>citation_author\<close> meta tags with their \<open>content\<close>.
\<close>

record soup =
  li_texts :: "int list list"
  container_lis :: "li list option"
  abstract_par :: "string option"
  title_meta :: "string option option"
  author_metas :: "string option list"

record response =
  status_code :: int
  content :: string
  html :: soup
  json_doc :: "json option"

text \<open>
  \<open>aio_get\<close> is the aiohttp request of \<open>fetch\<close> including its \<open>raise_for_status\<close>
  (\<open>None\<close>: an \<open>aiohttp.ClientError\<close>); \<open>requests_get\<close> is \<^verbatim>\<open>requests.get\<close>
  (\<open>None\<close>: it raises).
\<close>

record env =
  path_exists :: "string \<Rightarrow> bool"
  aio_get :: "string \<Rightarrow> soup option"
  requests_get :: "string \<Rightarrow> response option"

datatype event =
    HttpGet string
  | MakeDirs string
  | DumpJson string json
  | OpenWB string
  | WriteBytes string string

text \<open>
  \<^verbatim>\<open>Response.raise_for_status()\<close> of the requests library raises for the client and
  server error statuses 400 to 599 and for no other status.
\<close>

definition raise_for_status :: "response \<Rightarrow> bool" where
  "raise_for_status r = (400 \<le> status_code r \<and> status_code r < 600)"

section \<open>Link Deriver\<close>

definition base_url :: string where
  "base_url = ''https://papers.nips.cc''"

definition get_conference_url :: "int \<Rightarrow> string" where
  "get_conference_url year = base_url @ ''/paper/'' @ py_str year"

text \<open>\<^verbatim>\<open>paper_temp_url.split("/")[-1].split("-")[0]\<close>\<close>

definition paper_id_of :: "string \<Rightarrow> string" where
  "paper_id_of href = hd (str_split CHR ''-'' (last (str_split CHR ''/'' href)))"

definition abstract_path_of :: "string \<Rightarrow> string" where
  "abstract_path_of href = base_url @ href"

text \<open>\<^verbatim>\<open>f"{base_url}{paper_temp_url.rsplit('.', 1)[0]}"\<close>\<close>

definition paper_base_url :: "string \<Rightarrow> string" where
  "paper_base_url href = base_url @ hd (str_rsplit1 CHR ''.'' href)"

definition metadata_path_of :: "string \<Rightarrow> string" where
  "metadata_path_of href =
     str_replace ''hash'' ''file'' (str_replace ''Abstract'' ''Metadata'' (paper_base_url href))
       @ ''.json''"

definition pdf_path_of :: "string \<Rightarrow> string" where
  "pdf_path_of href =
     str_replace ''hash'' ''file'' (str_replace ''Abstract'' ''Paper'' (paper_base_url href))
       @ ''.pdf''"

text \<open>
  The identifier-bearing prefix of the derived URLs, in the words of the specification:
  the base endpoint followed by the href up to the end of the identifier, that is the
  directory part of the href (everything before its last \<open>/\<close>-delimited segment) and
  the paper identifier. The three URLs share it when each of them starts with it.
\<close>

definition href_dir :: "string \<Rightarrow> string" where
  "href_dir href = take (length href - length (last (str_split CHR ''/'' href))) href"

definition identifier_prefix :: "string \<Rightarrow> string" where
  "identifier_prefix href = base_url @ href_dir href @ paper_id_of href"

definition shares_identifier_prefix :: "string \<Rightarrow> bool" where
  "shares_identifier_prefix href =
     (prefix (identifier_prefix href) (abstract_path_of href) \<and>
      prefix (identifier_prefix href) (metadata_path_of href) \<and>
      prefix (identifier_prefix href) (pdf_path_of href))"

text \<open>
  \<open>begins_within tok k s\<close>: an occurrence of \<open>tok\<close> in \<open>s\<close> begins at a position below
  \<open>k\<close>. The tokens stand after the identifier when the extension-stripped URL reaches to
  the end of the identifier and no occurrence of \<open>Abstract\<close> or \<open>hash\<close> in it begins
  inside the identifier-bearing prefix.
\<close>

fun begins_within :: "'a list \<Rightarrow> nat \<Rightarrow> 'a list \<Rightarrow> bool" where
  "begins_within tok 0 s = False"
| "begins_within tok (Suc k) [] = (tok = [])"
| "begins_within tok (Suc k) (c # cs) = (prefix tok (c # cs) \<or> begins_within tok k cs)"

definition tokens_after_identifier :: "string \<Rightarrow> bool" where
  "tokens_after_identifier href =
     (prefix (identifier_prefix href) (paper_base_url href) \<and>
      \<not> begins_within ''Abstract'' (length (identifier_prefix href)) (paper_base_url href) \<and>
      \<not> begins_within ''hash'' (length (identifier_prefix href)) (paper_base_url href))"

text \<open>The longest common prefix of two strings.\<close>

fun common_prefix :: "'a list \<Rightarrow> 'a list \<Rightarrow> 'a list" where
  "common_prefix (x # xs) (y # ys) = (if x = y then x # common_prefix xs ys else [])"
| "common_prefix xs ys = []"

text \<open>
  The loop over the list items: a list item without an anchor, or an anchor without
  \<open>href\<close>, raises AttributeError.
\<close>

type_synonym paths = "string list \<times> string list \<times> string list \<times> string list"

fun li_loop :: "li list \<Rightarrow> paths \<Rightarrow> exn + paths" where
  "li_loop [] acc = Inr acc"
| "li_loop (NoAnchor # lis) acc = Inl AttributeError"
| "li_loop (Anchor None # lis) acc = Inl AttributeError"
| "li_loop (Anchor (Some href) # lis) (paper_ids, abstract_paths, metadata_paths, pdf_paths) =
     li_loop lis
       (paper_ids @ [paper_id_of href],
        abstract_paths @ [abstract_path_of href],
        metadata_paths @ [metadata_path_of href],
        pdf_paths @ [pdf_path_of href])"

definition get_paper_paths :: "env \<Rightarrow> int \<Rightarrow> event list \<times> (abort + paths)" where
  "get_paper_paths e year =
     (let url = get_conference_url year in
      case aio_get e url of
        None \<Rightarrow> ([HttpGet url], Inl (SystemExit_code 1))
      | Some page \<Rightarrow>
          (case container_lis page of
             None \<Rightarrow> ([HttpGet url], Inl (Uncaught AttributeError))
           | Some lis \<Rightarrow>
               (case li_loop lis ([], [], [], []) of
                  Inl x \<Rightarrow> ([HttpGet url], Inl (Uncaught x))
                | Inr ps \<Rightarrow> ([HttpGet url], Inr ps))))"

section \<open>Resource Fetcher\<close>

definition get_metadata :: "env \<Rightarrow> string \<Rightarrow> exn + json" where
  "get_metadata e meta_path =
     (case requests_get e meta_path of
        None \<Rightarrow> Inl RequestException
      | Some r \<Rightarrow>
          if status_code r \<noteq> 200 then Inr (JObj [])
          else (case json_doc r of None \<Rightarrow> Inl JSONDecodeError | Some j \<Rightarrow> Inr j))"

definition get_pdf :: "env \<Rightarrow> string \<Rightarrow> string option" where
  "get_pdf e pdf_path =
     (case requests_get e pdf_path of
        None \<Rightarrow> None
      | Some r \<Rightarrow> if raise_for_status r then None else Some (content r))"

text \<open>\<^verbatim>\<open>" ".join(abstract_text.split())\<close>\<close>

definition collapse_ws :: "string \<Rightarrow> string" where
  "collapse_ws s = str_join '' '' (str_split_ws s)"

fun author_contents :: "string option list \<Rightarrow> exn + string list" where
  "author_contents [] = Inr []"
| "author_contents (None # as) = Inl KeyError"
| "author_contents (Some a # as) =
     (case author_contents as of Inl x \<Rightarrow> Inl x | Inr cs \<Rightarrow> Inr (a # cs))"

definition get_abstract :: "env \<Rightarrow> string \<Rightarrow> exn + json" where
  "get_abstract e abstract_path =
     (case requests_get e abstract_path of
        None \<Rightarrow> Inl RequestException
      | Some r \<Rightarrow>
          if status_code r \<noteq> 200 then Inr (JStr [])
          else
            (case abstract_par (html r) of
               None \<Rightarrow> Inl AttributeError
             | Some par \<Rightarrow>
                 (let abstract_text = collapse_ws par in
                  case title_meta (html r) of
                    None \<Rightarrow> Inl TypeError
                  | Some None \<Rightarrow> Inl KeyError
                  | Some (Some title) \<Rightarrow>
                      (case author_contents (author_metas (html r)) of
                         Inl x \<Rightarrow> Inl x
                       | Inr authors \<Rightarrow>
                           Inr (JObj [(''title'', JStr title),
                                      (''authors'', JArr (map JStr authors)),
                                      (''abstract'', JStr abstract_text)])))))"

section \<open>Year Resolver\<close>

text \<open>
  The Year Resolver hands the tokens of the list-item texts to \<^verbatim>\<open>int\<close>, which accepts
  the decimal digits and the whitespace of every script, so these texts are lists of code
  points. \<open>code_points\<close> turns a string of this theory into such a list.
\<close>

definition code_points :: "string \<Rightarrow> int list" where
  "code_points s = map of_char s"

text \<open>
  \<^verbatim>\<open>str.isspace\<close>: the code points that \<^verbatim>\<open>s.split()\<close> treats as separators.
\<close>

definition uni_whitespace :: "int list" where
  "uni_whitespace =
     [0x9, 0xA, 0xB, 0xC, 0xD, 0x1C, 0x1D, 0x1E, 0x1F, 0x20, 0x85, 0xA0, 0x1680, 0x2000,
      0x2001, 0x2002, 0x2003, 0x2004, 0x2005, 0x2006, 0x2007, 0x2008, 0x2009,
      0x200A, 0x2028, 0x2029, 0x202F, 0x205F, 0x3000]"

definition uni_isspace :: "int \<Rightarrow> bool" where
  "uni_isspace c = (c \<in> set uni_whitespace)"

text \<open>
  \<^verbatim>\<open>s.split()\<close> on a list of code points: the maximal runs of non-whitespace code
  points, in order; no empty piece. \<open>cur\<close> is the word being read.
\<close>

fun split_text :: "int list \<Rightarrow> int list \<Rightarrow> int list list" where
  "split_text cur [] = (if cur = [] then [] else [cur])"
| "split_text cur (c # cs) =
     (if uni_isspace c then (if cur = [] then split_text [] cs else cur # split_text [] cs)
      else split_text (cur @ [c]) cs)"


text \<open>
  The whitespace that \<^verbatim>\<open>int\<close> drops at both ends: the ASCII whitespace 0x09 to 0x0D
  and 0x20, and the whitespace above ASCII; not the separators 0x1C to 0x1F.
\<close>

definition int_whitespace :: "int list" where
  "int_whitespace =
     [0x9, 0xA, 0xB, 0xC, 0xD, 0x20, 0x85, 0xA0, 0x1680, 0x2000, 0x2001, 0x2002, 0x2003,
      0x2004, 0x2005, 0x2006, 0x2007, 0x2008, 0x2009, 0x200A, 0x2028, 0x2029,
      0x202F, 0x205F, 0x3000]"

text \<open>
  The decimal digits (Unicode 14.0, category Nd) come in runs of ten, from the digit zero
  to the digit nine of a script; \<open>other_zeros\<close> lists the zeros above ASCII.
\<close>

definition other_zeros :: "int list" where
  "other_zeros =
     [0x660, 0x6F0, 0x7C0, 0x966, 0x9E6, 0xA66, 0xAE6, 0xB66, 0xBE6, 0xC66, 0xCE6,
      0xD66, 0xDE6, 0xE50, 0xED0, 0xF20, 0x1040, 0x1090, 0x17E0, 0x1810, 0x1946,
      0x19D0, 0x1A80, 0x1A90, 0x1B50, 0x1BB0, 0x1C40, 0x1C50, 0xA620, 0xA8D0,
      0xA900, 0xA9D0, 0xA9F0, 0xAA50, 0xABF0, 0xFF10, 0x104A0, 0x10D30, 0x11066,
      0x110F0, 0x11136, 0x111D0, 0x112F0, 0x11450, 0x114D0, 0x11650, 0x116C0,
      0x11730, 0x118E0, 0x11950, 0x11C50, 0x11D50, 0x11DA0, 0x16A60, 0x16AC0,
      0x16B50, 0x1D7CE, 0x1D7D8, 0x1D7E2, 0x1D7EC, 0x1D7F6, 0x1E140, 0x1E2F0,
      0x1E950, 0x1FBF0]"

definition decimal_of :: "int \<Rightarrow> int option" where
  "decimal_of c =
     (case find (\<lambda>z. z \<le> c \<and> c < z + 10) (0x30 # other_zeros) of
        None \<Rightarrow> None
      | Some z \<Rightarrow> Some (c - z))"

text \<open>
  \<^verbatim>\<open>int(s)\<close> for base 10: surrounding whitespace is dropped, a sign may come first,
  and the rest must be decimal digits, where single underscores (0x5F) may stand between
  two digits; a literal of more than 4300 digits is refused (the default limit of
  CPython 3.11 and later, counting every digit, leading zeros too, and neither sign nor
  underscores). \<open>None\<close> is Python's ValueError.
\<close>

fun digits_val :: "int \<Rightarrow> int list \<Rightarrow> int option" where
  "digits_val acc [] = Some acc"
| "digits_val acc (c # cs) =
     (case decimal_of c of
        Some d \<Rightarrow> digits_val (10 * acc + d) cs
      | None \<Rightarrow>
          (if c = 0x5F then
             (case cs of
                [] \<Rightarrow> None
              | e # es \<Rightarrow>
                  (case decimal_of e of
                     Some d \<Rightarrow> digits_val (10 * acc + d) es
                   | None \<Rightarrow> None))
           else None))"

definition count_digits :: "int list \<Rightarrow> nat" where
  "count_digits u = length (filter (\<lambda>c. decimal_of c \<noteq> None) u)"

definition int_max_str_digits :: nat where
  "int_max_str_digits = 4300"

definition unsigned_int :: "int list \<Rightarrow> int option" where
  "unsigned_int u =
     (case u of
        [] \<Rightarrow> None
      | c # cs \<Rightarrow>
          (case decimal_of c of
             None \<Rightarrow> None
           | Some d \<Rightarrow>
               (case digits_val d cs of
                  None \<Rightarrow> None
                | Some v \<Rightarrow> if int_max_str_digits < count_digits u then None else Some v)))"

definition py_int :: "int list \<Rightarrow> int option" where
  "py_int s =
     (case str_strip int_whitespace s of
        [] \<Rightarrow> None
      | c # cs \<Rightarrow>
          (if c = 0x2D then map_option uminus (unsigned_int cs)
           else if c = 0x2B then unsigned_int cs
           else unsigned_int (c # cs)))"

text \<open>
  \<^verbatim>\<open>int(item.text.split()[-1].strip('()'))\<close>: \<open>None\<close> stands for the IndexError of an
  item without a token and for the ValueError of a token that is no integer; the loop
  skips both.
\<close>

definition item_year :: "int list \<Rightarrow> int option" where
  "item_year text =
     (case split_text [] text of
        [] \<Rightarrow> None
      | w # ws \<Rightarrow> py_int (str_strip [0x28, 0x29] (last (w # ws))))"

fun collect_years :: "int list list \<Rightarrow> int list \<Rightarrow> int list" where
  "collect_years [] years = years"
| "collect_years (item # items) years =
     (case item_year item of
        None \<Rightarrow> collect_years items years
      | Some year \<Rightarrow> collect_years items (years @ [year]))"

definition latest_year_of :: "int list list \<Rightarrow> int" where
  "latest_year_of texts =
     (case collect_years texts [] of
        [] \<Rightarrow> 2023
      | y # ys \<Rightarrow> py_max y ys)"

definition root_url :: string where
  "root_url = ''https://papers.nips.cc/''"

definition get_latest_conference_year :: "env \<Rightarrow> exn + int" where
  "get_latest_conference_year e =
     (case requests_get e root_url of
        None \<Rightarrow> Inl RequestException
      | Some r \<Rightarrow> Inr (latest_year_of (li_texts (html r))))"

section \<open>Orchestrator and Paper Archiver\<close>

record args =
  start_year :: int
  end_year :: int
  output_dir :: string

text \<open>The command line: each option is given or left to its default.\<close>

record cli =
  cli_start_year :: "int option"
  cli_end_year :: "int option"
  cli_output_dir :: "string option"

definition get_args :: "env \<Rightarrow> cli \<Rightarrow> exn + args" where
  "get_args e c =
     (case get_latest_conference_year e of
        Inl x \<Rightarrow> Inl x
      | Inr latest_year \<Rightarrow>
          Inr \<lparr> start_year = (case cli_start_year c of None \<Rightarrow> 1987 | Some y \<Rightarrow> y),
                end_year = (case cli_end_year c of None \<Rightarrow> latest_year | Some y \<Rightarrow> y),
                output_dir = (case cli_output_dir c of None \<Rightarrow> ''data'' | Some d \<Rightarrow> d) \<rparr>)"

definition check_args :: "args \<Rightarrow> abort + unit" where
  "check_args a =
     (if start_year a < 1987 then Inl (SystemExit_msg ''Start year must be 1987 or later'')
      else if start_year a > end_year a
        then Inl (SystemExit_msg ''Start year must be less than or equal to end year'')
      else Inr ())"

text \<open>
  The body of the loop over the papers of one year. Its last statement is \<^verbatim>\<open>break\<close>.
  Opening the PDF file for writing creates it; writing \<open>None\<close> to it raises TypeError.
\<close>

datatype flow = Continue | Break

definition paper_body ::
  "env \<Rightarrow> string \<Rightarrow> string \<times> string \<times> string \<times> string \<Rightarrow> event list \<times> (abort + flow)" where
  "paper_body e year_dir p =
     (case p of (paper_id, abstract_path, metadata_path, pdf_path) \<Rightarrow>
        let save_dir = path_join year_dir paper_id;
            evs1 = [MakeDirs save_dir, HttpGet abstract_path]
        in case get_abstract e abstract_path of
             Inl x \<Rightarrow> (evs1, Inl (Uncaught x))
           | Inr abstract \<Rightarrow>
               (let evs2 = evs1 @ [HttpGet metadata_path]
                in case get_metadata e metadata_path of
                     Inl x \<Rightarrow> (evs2, Inl (Uncaught x))
                   | Inr metadata \<Rightarrow>
                       (let pdf = get_pdf e pdf_path;
                            pdf_file = path_join save_dir (paper_id @ ''.pdf'');
                            evs3 = evs2 @
                              [HttpGet pdf_path,
                               DumpJson (path_join save_dir (paper_id @ ''_abstract.json'')) abstract,
                               DumpJson (path_join save_dir (paper_id @ ''_metadata.json'')) metadata,
                               OpenWB pdf_file]
                        in case pdf of
                             None \<Rightarrow> (evs3, Inl (Uncaught TypeError))
                           | Some bytes \<Rightarrow> (evs3 @ [WriteBytes pdf_file bytes], Inr Break))))"

fun for_papers ::
  "env \<Rightarrow> string \<Rightarrow> (string \<times> string \<times> string \<times> string) list \<Rightarrow> event list \<times> (abort + unit)" where
  "for_papers e year_dir [] = ([], Inr ())"
| "for_papers e year_dir (p # ps) =
     (case paper_body e year_dir p of
        (evs, Inl a) \<Rightarrow> (evs, Inl a)
      | (evs, Inr Break) \<Rightarrow> (evs, Inr ())
      | (evs, Inr Continue) \<Rightarrow>
          (case for_papers e year_dir ps of (evs', r) \<Rightarrow> (evs @ evs', r)))"

fun for_years :: "env \<Rightarrow> int list \<Rightarrow> event list \<times> (abort + unit)" where
  "for_years e [] = ([], Inr ())"
| "for_years e (year # years) =
     (let year_dir = path_join ''../data'' (py_str year) in
      case get_paper_paths e year of
        (evs, Inl a) \<Rightarrow> (evs, Inl a)
      | (evs, Inr (paper_ids, abstract_paths, metadata_paths, pdf_paths)) \<Rightarrow>
          (case for_papers e year_dir
                  (zip paper_ids (zip abstract_paths (zip metadata_paths pdf_paths))) of
             (evs2, Inl a) \<Rightarrow> (evs @ evs2, Inl a)
           | (evs2, Inr u) \<Rightarrow>
               (case for_years e years of (evs3, r) \<Rightarrow> (evs @ evs2 @ evs3, r))))"

definition main :: "env \<Rightarrow> cli \<Rightarrow> event list \<times> (abort + unit)" where
  "main e c =
     (case get_args e c of
        Inl x \<Rightarrow> ([HttpGet root_url], Inl (Uncaught x))
      | Inr a \<Rightarrow>
          if \<not> path_exists e (output_dir a)
          then ([HttpGet root_url],
                Inl (SystemExit_msg (''Output directory '' @ output_dir a @ '' does not exist'')))
          else (case for_years e [start_year a .. end_year a] of
                  (evs, r) \<Rightarrow> (HttpGet root_url # evs, r)))"

section \<open>Example sites\<close>

text \<open>
  Concrete environments on which the program is run below. Every listing page has the
  same two papers; every other request is answered by one fixed response: a page with an
  abstract, a title and two authors and status 200 (\<open>site_ok\<close>), status 404
  (\<open>site_404\<close>), or status 304 (\<open>site_304\<close>). Every path exists.
\<close>

definition listing_page :: soup where
  "listing_page =
     \<lparr> li_texts = [],
       container_lis = Some [Anchor (Some ''/paper_files/paper/2020/hash/1234-Abstract.html''),
                             Anchor (Some ''/paper_files/paper/2020/hash/5678-Abstract.html'')],
       abstract_par = None, title_meta = None, author_metas = [] \<rparr>"

definition paper_page :: soup where
  "paper_page =
     \<lparr> li_texts = [code_points ''NeurIPS (2023)''],
       container_lis = None,
       abstract_par = Some ''An  abstract.'',
       title_meta = Some (Some ''A Title''),
       author_metas = [Some ''A. Author'', Some ''B. Author''] \<rparr>"

definition empty_page :: soup where
  "empty_page =
     \<lparr> li_texts = [], container_lis = None, abstract_par = None, title_meta = None,
       author_metas = [] \<rparr>"

definition ok_response :: response where
  "ok_response =
     \<lparr> status_code = 200, content = ''%PDF'', html = paper_page,
       json_doc = Some (JObj [(''title'', JStr ''A Title'')]) \<rparr>"

definition not_found :: response where
  "not_found = \<lparr> status_code = 404, content = [], html = empty_page, json_doc = None \<rparr>"

definition not_modified :: response where
  "not_modified = \<lparr> status_code = 304, content = [], html = empty_page, json_doc = None \<rparr>"

definition site_ok :: env where
  "site_ok =
     \<lparr> path_exists = (\<lambda>p. True), aio_get = (\<lambda>u. Some listing_page),
       requests_get = (\<lambda>u. Some ok_response) \<rparr>"

definition site_404 :: env where
  "site_404 =
     \<lparr> path_exists = (\<lambda>p. True), aio_get = (\<lambda>u. Some listing_page),
       requests_get = (\<lambda>u. Some not_found) \<rparr>"

definition site_304 :: env where
  "site_304 =
     \<lparr> path_exists = (\<lambda>p. True), aio_get = (\<lambda>u. Some listing_page),
       requests_get = (\<lambda>u. Some not_modified) \<rparr>"

definition years_cli :: "int \<Rightarrow> int \<Rightarrow> string \<Rightarrow> cli" where
  "years_cli s t d = \<lparr> cli_start_year = Some s, cli_end_year = Some t, cli_output_dir = Some d \<rparr>"

section \<open>Facts about splitting and replacing\<close>

lemma str_split_nonempty: "str_split sep s \<noteq> []"
  by (induction s) (auto split: list.splits)

lemma str_split_no_sep: "sep \<notin> set s \<Longrightarrow> str_split sep s = [s]"
  by (induction s) auto

lemma str_split_append: "str_split sep (a @ sep # b) = str_split sep a @ str_split sep b"
  by (induction a) (auto split: list.splits simp: str_split_nonempty)

lemma last_str_split: "sep \<notin> set b \<Longrightarrow> last (str_split sep (a @ sep # b)) = b"
  by (simp add: str_split_append str_split_no_sep)

lemma hd_str_split: "hd (str_split sep s) = takeWhile (\<lambda>c. c \<noteq> sep) s"
  by (induction s) (auto split: list.splits simp: str_split_nonempty)

lemma hd_str_rsplit1: "sep \<notin> set e \<Longrightarrow> hd (str_rsplit1 sep (x @ sep # e)) = x"
proof -
  assume e: "sep \<notin> set e"
  have "dropWhile (\<lambda>c. c \<noteq> sep) (rev e @ sep # rev x) = dropWhile (\<lambda>c. c \<noteq> sep) (sep # rev x)"
    by (rule dropWhile_append2) (use e in auto)
  then show ?thesis by (simp add: str_rsplit1_def)
qed

lemma prefix_hd_str_rsplit1: "prefix (hd (str_rsplit1 sep s)) s"
proof (cases "sep \<in> set s")
  case False
  then show ?thesis by (simp add: str_rsplit1_def)
next
  case True
  let ?P = "\<lambda>c. c \<noteq> sep"
  from True have "dropWhile ?P (rev s) \<noteq> []" by (simp add: dropWhile_eq_Nil_conv)
  then obtain y t where d: "dropWhile ?P (rev s) = y # t" by (cases "dropWhile ?P (rev s)") auto
  have "rev s = takeWhile ?P (rev s) @ y # t" using d takeWhile_dropWhile_id[of ?P "rev s"] by simp
  then have "s = rev t @ y # rev (takeWhile ?P (rev s))"
    by (metis rev_append rev.simps(2) rev_rev_ident append.assoc append_Cons append_Nil)
  moreover have "hd (str_rsplit1 sep s) = rev t" using True d by (simp add: str_rsplit1_def)
  ultimately show ?thesis by (metis prefixI)
qed

lemma replace_skip:
  "old \<noteq> [] \<Longrightarrow> hd old \<notin> set t \<Longrightarrow> str_replace old new (t @ r) = t @ str_replace old new r"
  by (induction t) (auto simp: prefix_Cons)

lemma replace_copied_prefix:
  "new \<noteq> [] \<Longrightarrow> old \<noteq> [] \<Longrightarrow> hd new \<notin> set p \<Longrightarrow>
   prefix p (str_replace old new s) \<Longrightarrow> prefix p s"
proof (induction old new s arbitrary: p rule: str_replace.induct)
  case (1 old new)
  then show ?case by simp
next
  case (2 old new c cs)
  show ?case
  proof (cases "prefix old (c # cs)")
    case True
    with 2 have "prefix p (new @ str_replace old new (drop (length old - 1) cs))" by simp
    with 2(4,6) have "p = []" by (cases p; cases new) auto
    then show ?thesis by simp
  next
    case False
    with 2 have pp: "prefix p (c # str_replace old new cs)" by simp
    show ?thesis
    proof (cases p)
      case Nil
      then show ?thesis by simp
    next
      case (Cons y ys)
      with pp have "y = c" "prefix ys (str_replace old new cs)" by simp_all
      moreover have "hd new \<notin> set ys" using 2(6) Cons by simp
      ultimately show ?thesis using 2(3)[OF 2(5) False 2(4) 2(5)] Cons by simp
    qed
  qed
qed

lemma replace_introduces:
  "old \<noteq> [] \<Longrightarrow> sublist old s \<Longrightarrow> sublist new (str_replace old new s)"
proof (induction old new s rule: str_replace.induct)
  case (1 old new)
  then show ?case by simp
next
  case (2 old new c cs)
  show ?case
  proof (cases "prefix old (c # cs)")
    case True
    with 2 show ?thesis by simp
  next
    case False
    with 2 have "sublist old cs" by (simp add: sublist_Cons_right)
    with 2 False have "sublist new (str_replace old new cs)" by simp
    with 2 False show ?thesis by (simp add: sublist_Cons_right)
  qed
qed

lemma replace_id:
  "old \<noteq> [] \<Longrightarrow> \<not> sublist old s \<Longrightarrow> str_replace old new s = s"
  by (induction old new s rule: str_replace.induct) (auto simp: sublist_Cons_right)

lemma replace_keeps:
  "old \<noteq> [] \<Longrightarrow> t \<noteq> [] \<Longrightarrow> hd t \<notin> set old \<Longrightarrow> hd old \<notin> set t \<Longrightarrow> sublist t s \<Longrightarrow>
   sublist t (str_replace old new s)"
proof (induction old new s rule: str_replace.induct)
  case (1 old new)
  then show ?case by simp
next
  case (2 old new c cs)
  show ?case
  proof (cases "prefix old (c # cs)")
    case True
    let ?rest = "drop (length old - 1) cs"
    have split: "c # cs = old @ ?rest"
      using True 2(4) by (cases old) (auto simp: prefix_def)
    have "sublist t ?rest"
    proof -
      from 2(8) split have "sublist t (old @ ?rest)" by simp
      then consider "sublist t old" | "sublist t ?rest"
        | t1 t2 where "t = t1 @ t2" "suffix t1 old" "prefix t2 ?rest"
        unfolding sublist_append by blast
      then show ?thesis
      proof cases
        case 1
        then have "set t \<subseteq> set old" by (rule set_mono_sublist)
        with 2(5,6) show ?thesis by (cases t) auto
      next
        case 2
        then show ?thesis .
      next
        case 3
        show ?thesis
        proof (cases t1)
          case Nil
          with 3 show ?thesis by (auto intro: prefix_imp_sublist)
        next
          case (Cons y ys)
          with 3 have "hd t \<in> set old" using set_mono_suffix[of t1 old] by auto
          with 2(6) show ?thesis by simp
        qed
      qed
    qed
    then have "sublist t (str_replace old new ?rest)"
      using 2(2)[OF 2(4) True 2(4) 2(5) 2(6) 2(7)] by simp
    then show ?thesis using True 2(4) by (simp add: sublist_append)
  next
    case False
    from 2(8) consider "prefix t (c # cs)" | "sublist t cs" unfolding sublist_Cons_right by blast
    then show ?thesis
    proof cases
      case 1
      then obtain r where "c # cs = t @ r" by (auto simp: prefix_def)
      then have "str_replace old new (c # cs) = t @ str_replace old new r"
        using replace_skip[OF 2(4) 2(7)] by simp
      then show ?thesis by simp
    next
      case 2
      then have "sublist t (str_replace old new cs)"
        using "2.IH"(3)[OF "2.prems"(1) False "2.prems"(1) "2.prems"(2) "2.prems"(3) "2.prems"(4)] by simp
      then show ?thesis using False "2.prems"(1) by (simp add: sublist_Cons_right)
    qed
  qed
qed


lemma replace_no_occurrence:
  "old \<noteq> [] \<Longrightarrow> new \<noteq> [] \<Longrightarrow> t \<noteq> [] \<Longrightarrow> hd new \<notin> set t \<Longrightarrow> hd t \<notin> set new \<Longrightarrow>
   t = old \<or> \<not> sublist t s \<Longrightarrow> \<not> sublist t (str_replace old new s)"
proof (induction old new s rule: str_replace.induct)
  case (1 old new)
  then show ?case by simp
next
  case (2 old new c cs)
  show ?case
  proof (cases "prefix old (c # cs)")
    case True
    let ?rest = "drop (length old - 1) cs"
    let ?R = "str_replace old new ?rest"
    have split: "c # cs = old @ ?rest"
      using True "2.prems"(1) by (cases old) (auto simp: prefix_def)
    have "t = old \<or> \<not> sublist t ?rest"
      using "2.prems"(6) split by (metis sublist_append)
    then have R: "\<not> sublist t ?R"
      using "2.IH"(2)[OF "2.prems"(1) True "2.prems"(1) "2.prems"(2) "2.prems"(3) "2.prems"(4) "2.prems"(5)]
      by simp
    have "\<not> sublist t (new @ ?R)"
    proof
      assume "sublist t (new @ ?R)"
      then consider "sublist t new" | "sublist t ?R"
        | t1 t2 where "t = t1 @ t2" "suffix t1 new" "prefix t2 ?R"
        unfolding sublist_append by blast
      then show False
      proof cases
        case 1
        then have "set t \<subseteq> set new" by (rule set_mono_sublist)
        with "2.prems"(3,5) show False by (cases t) auto
      next
        case 2
        with R show False by simp
      next
        case 3
        show False
        proof (cases t1)
          case Nil
          with 3 R show False by (auto dest: prefix_imp_sublist)
        next
          case (Cons y ys)
          with 3 have "hd t \<in> set new" using set_mono_suffix[of t1 new] by auto
          with "2.prems"(5) show False by simp
        qed
      qed
    qed
    then show ?thesis using True "2.prems"(1) by simp
  next
    case False
    let ?R = "str_replace old new cs"
    have "t = old \<or> \<not> sublist t cs"
      using "2.prems"(6) by (auto simp: sublist_Cons_right)
    then have R: "\<not> sublist t ?R"
      using "2.IH"(3)[OF "2.prems"(1) False "2.prems"(1) "2.prems"(2) "2.prems"(3) "2.prems"(4) "2.prems"(5)]
      by simp
    have out: "str_replace old new (c # cs) = c # ?R" using False "2.prems"(1) by simp
    have "\<not> prefix t (c # ?R)"
    proof
      assume "prefix t (c # ?R)"
      then have "prefix t (str_replace old new (c # cs))" using out by simp
      then have p: "prefix t (c # cs)"
        using replace_copied_prefix[OF "2.prems"(2) "2.prems"(1) "2.prems"(4)] by blast
      from "2.prems"(6) show False
      proof
        assume "t = old"
        with p False show False by simp
      next
        assume "\<not> sublist t (c # cs)"
        with p show False by (auto dest: prefix_imp_sublist)
      qed
    qed
    with R show ?thesis unfolding out by (simp add: sublist_Cons_right)
  qed
qed

lemma sublist_append_ext:
  assumes "t \<noteq> []" "last t \<notin> set z" "sublist t (y @ z)"
  shows "sublist t y"
proof -
  from assms(3) consider "sublist t y" | "sublist t z"
    | t1 t2 where "t = t1 @ t2" "suffix t1 y" "prefix t2 z"
    unfolding sublist_append by blast
  then show ?thesis
  proof cases
    case 1
    then show ?thesis .
  next
    case 2
    then have "set t \<subseteq> set z" by (rule set_mono_sublist)
    moreover have "last t \<in> set t" using assms(1) by simp
    ultimately show ?thesis using assms(2) by blast
  next
    case 3
    show ?thesis
    proof (cases "t2 = []")
      case True
      with 3 show ?thesis by (auto dest: suffix_imp_sublist)
    next
      case False
      then have "last t = last t2" using 3(1) by simp
      moreover have "last t2 \<in> set t2" using False by simp
      moreover have "set t2 \<subseteq> set z" using 3(3) by (rule set_mono_prefix)
      ultimately show ?thesis using assms(2) by auto
    qed
  qed
qed

text \<open>Where no match can straddle the seam, replacement distributes over concatenation.\<close>

lemma replace_append:
  "old \<noteq> [] \<Longrightarrow> m \<noteq> [] \<Longrightarrow> hd m \<notin> set old \<Longrightarrow>
   str_replace old new (a @ m) = str_replace old new a @ str_replace old new m"
proof (induction old new a rule: str_replace.induct)
  case (1 old new)
  then show ?case by simp
next
  case (2 old new c cs)
  show ?case
  proof (cases "prefix old (c # cs @ m)")
    case True
    have inside: "length old \<le> length (c # cs)"
    proof (rule ccontr)
      assume "\<not> length old \<le> length (c # cs)"
      then have len: "length (c # cs) < length old" by simp
      from True obtain r where r: "(c # cs) @ m = old @ r" by (auto simp: prefix_def)
      then have "old ! length (c # cs) = ((c # cs) @ m) ! length (c # cs)"
        using len by (metis nth_append)
      also have "\<dots> = hd m" using "2.prems"(2) by (simp add: nth_append hd_conv_nth)
      finally have "hd m \<in> set old" using len by (metis nth_mem)
      with "2.prems"(3) show False by simp
    qed
    from True obtain r where r: "c # cs @ m = old @ r" by (auto simp: prefix_def)
    have pre: "prefix old (c # cs)"
      using inside r by (metis append_Cons append_eq_append_conv_if prefix_def take_is_prefix)
    have d: "drop (length old - 1) (cs @ m) = drop (length old - 1) cs @ m"
      using inside by simp
    show ?thesis
      using True pre "2.prems"(1) d "2.IH"(2)[OF "2.prems"(1) pre "2.prems"(1) "2.prems"(2) "2.prems"(3)]
      by simp
  next
    case False
    then have np: "\<not> prefix old (c # cs)" by (metis append_Cons prefix_prefix)
    show ?thesis
      using False np "2.prems"(1) "2.IH"(3)[OF "2.prems"(1) np "2.prems"(1) "2.prems"(2) "2.prems"(3)]
      by simp
  qed
qed

lemma replace_at:
  "old \<noteq> [] \<Longrightarrow> hd old \<notin> set (tl old) \<Longrightarrow>
   str_replace old new (a @ old @ b) = str_replace old new a @ new @ str_replace old new b"
proof (induction old new a rule: str_replace.induct)
  case (1 old new)
  then show ?case by (cases old) simp_all
next
  case (2 old new c cs)
  show ?case
  proof (cases "prefix old (c # cs @ old @ b)")
    case True
    have inside: "length old \<le> length (c # cs)"
    proof (rule ccontr)
      assume "\<not> length old \<le> length (c # cs)"
      then have len: "length (c # cs) < length old" by simp
      from True obtain r where r: "(c # cs) @ old @ b = old @ r" by (auto simp: prefix_def)
      then have "old ! length (c # cs) = ((c # cs) @ old @ b) ! length (c # cs)"
        using len by (metis nth_append)
      also have "\<dots> = hd old" using "2.prems"(1) by (simp add: nth_append hd_conv_nth)
      finally have "old ! length (c # cs) = hd old" .
      moreover have "old ! length (c # cs) \<in> set (tl old)"
        using len by (cases old) (auto simp: nth_Cons')
      ultimately show False using "2.prems"(2) by simp
    qed
    from True obtain r where r: "c # cs @ old @ b = old @ r" by (auto simp: prefix_def)
    have pre: "prefix old (c # cs)"
      using inside r by (metis append_Cons append_eq_append_conv_if prefix_def take_is_prefix)
    have d: "drop (length old - 1) (cs @ old @ b) = drop (length old - 1) cs @ old @ b"
      using inside by simp
    show ?thesis
      using True pre "2.prems"(1) d "2.IH"(2)[OF "2.prems"(1) pre "2.prems"(1) "2.prems"(2)]
      by simp
  next
    case False
    then have np: "\<not> prefix old (c # cs)" by (metis append_Cons prefix_prefix)
    show ?thesis
      using False np "2.prems"(1) "2.IH"(3)[OF "2.prems"(1) np "2.prems"(1) "2.prems"(2)]
      by simp
  qed
qed

lemma subst_contains:
  assumes "sublist ''Abstract'' s" "sublist ''hash'' s"
    and n: "new \<noteq> []" "hd new \<notin> set ''hash''" "CHR ''h'' \<notin> set new"
  shows "sublist new (str_replace ''hash'' ''file'' (str_replace ''Abstract'' new s))
       \<and> sublist ''file'' (str_replace ''hash'' ''file'' (str_replace ''Abstract'' new s))"
proof -
  let ?m1 = "str_replace ''Abstract'' new s"
  have a: "sublist new ?m1"
    using assms(1) by (rule replace_introduces[where old = "''Abstract''", rotated]) simp
  have h: "sublist ''hash'' ?m1"
    using assms(2) by (rule replace_keeps[where old = "''Abstract''" and t = "''hash''", rotated 4]) simp_all
  have "sublist new (str_replace ''hash'' ''file'' ?m1)"
    using a by (rule replace_keeps[where old = "''hash''" and t = new, rotated 4]) (use n in simp_all)
  moreover have "sublist ''file'' (str_replace ''hash'' ''file'' ?m1)"
    using h by (rule replace_introduces[where old = "''hash''", rotated]) simp
  ultimately show ?thesis by simp
qed

lemma subst_removes:
  assumes n: "new \<noteq> []" "hd new \<notin> set ''Abstract''" "CHR ''A'' \<notin> set new"
    and e: "CHR ''t'' \<notin> set ext" "CHR ''h'' \<notin> set ext"
  shows "\<not> sublist ''Abstract'' (str_replace ''hash'' ''file'' (str_replace ''Abstract'' new s) @ ext)
       \<and> \<not> sublist ''hash'' (str_replace ''hash'' ''file'' (str_replace ''Abstract'' new s) @ ext)"
proof -
  let ?m1 = "str_replace ''Abstract'' new s"
  let ?m2 = "str_replace ''hash'' ''file'' ?m1"
  have a1: "\<not> sublist ''Abstract'' ?m1"
    by (rule replace_no_occurrence[where old = "''Abstract''" and t = "''Abstract''"]) (use n in simp_all)
  have a2: "\<not> sublist ''Abstract'' ?m2"
    by (rule replace_no_occurrence[where old = "''hash''" and t = "''Abstract''"]) (use a1 in simp_all)
  have h2: "\<not> sublist ''hash'' ?m2"
    by (rule replace_no_occurrence[where old = "''hash''" and t = "''hash''"]) simp_all
  have "\<not> sublist ''Abstract'' (?m2 @ ext)"
    using a2 e(1) sublist_append_ext[of "''Abstract''" ext ?m2] by auto
  moreover have "\<not> sublist ''hash'' (?m2 @ ext)"
    using h2 e(2) sublist_append_ext[of "''hash''" ext ?m2] by auto
  ultimately show ?thesis by simp
qed

section \<open>Link Deriver: identifier and derived URLs\<close>

lemma paper_id_abstract_hash_form:
  assumes "CHR ''/'' \<notin> set pid"
  shows "paper_id_of (pre @ ''/Abstract-hash-'' @ pid @ ''.html'') = ''Abstract''"
proof -
  let ?seg = "''Abstract-hash-'' @ pid @ ''.html''"
  have "CHR ''/'' \<notin> set ?seg" using assms by simp
  then have "last (str_split CHR ''/'' (pre @ CHR ''/'' # ?seg)) = ?seg"
    by (rule last_str_split)
  then show ?thesis by (simp add: paper_id_of_def hd_str_split)
qed

lemma paper_id_site_form:
  assumes "CHR ''/'' \<notin> set pid" "CHR ''-'' \<notin> set pid"
  shows "paper_id_of (pre @ ''/'' @ pid @ ''-Abstract.html'') = pid"
proof -
  let ?seg = "pid @ ''-Abstract.html''"
  have "CHR ''/'' \<notin> set ?seg" using assms by simp
  then have "last (str_split CHR ''/'' (pre @ CHR ''/'' # ?seg)) = ?seg"
    by (rule last_str_split)
  moreover have "takeWhile (\<lambda>c. c \<noteq> CHR ''-'') (pid @ CHR ''-'' # ''Abstract.html'') = pid"
    using assms(2) by (auto simp: takeWhile_tail)
  ultimately show ?thesis by (simp add: paper_id_of_def hd_str_split)
qed

lemma paper_base_abstract_hash_form:
  "paper_base_url (pre @ ''/Abstract-hash-'' @ pid @ ''.html'') =
   base_url @ pre @ ''/Abstract-hash-'' @ pid"
  using hd_str_rsplit1[of "CHR ''.''" "''html''" "pre @ ''/Abstract-hash-'' @ pid"]
  by (simp add: paper_base_url_def)

lemma tokens_in_abstract_hash_form:
  "sublist ''Abstract'' (base_url @ pre @ ''/Abstract-hash-'' @ pid)"
  "sublist ''hash'' (base_url @ pre @ ''/Abstract-hash-'' @ pid)"
  using sublist_appendI[of "''Abstract''" "base_url @ pre @ ''/''" "''-hash-'' @ pid"]
        sublist_appendI[of "''hash''" "base_url @ pre @ ''/Abstract-''" "''-'' @ pid"]
  by simp_all

text \<open>
  Claim C1, as amended. For an anchor href of the form \<open>\<dots>/Abstract-hash-<id>.html\<close>,
  where \<open><id>\<close> has no slash, the paper identifier is the last \<open>/\<close>-delimited segment
  cut at its first \<open>-\<close>, which for this form is the word \<open>Abstract\<close>; the metadata URL
  contains \<open>Metadata\<close> and \<open>file\<close> and ends in \<open>.json\<close>; the PDF URL contains \<open>Paper\<close>
  and \<open>file\<close> and ends in \<open>.pdf\<close>. The identifier is \<open><id>\<close> for an href of the form
  \<open>\<dots>/<id>-Abstract.html\<close> whose \<open><id>\<close> has no \<open>-\<close> either.
\<close>

theorem link_deriver_abstract_hash_form:
  assumes "CHR ''/'' \<notin> set pid" and "href = pre @ ''/Abstract-hash-'' @ pid @ ''.html''"
  shows "paper_id_of href = ''Abstract''
       \<and> sublist ''Metadata'' (metadata_path_of href) \<and> sublist ''file'' (metadata_path_of href)
       \<and> suffix ''.json'' (metadata_path_of href)
       \<and> sublist ''Paper'' (pdf_path_of href) \<and> sublist ''file'' (pdf_path_of href)
       \<and> suffix ''.pdf'' (pdf_path_of href)
       \<and> (CHR ''-'' \<notin> set pid \<longrightarrow> paper_id_of (pre @ ''/'' @ pid @ ''-Abstract.html'') = pid)"
proof -
  let ?pb = "base_url @ pre @ ''/Abstract-hash-'' @ pid"
  have pb: "paper_base_url href = ?pb"
    unfolding assms(2) by (rule paper_base_abstract_hash_form)
  have m: "sublist ''Metadata'' (str_replace ''hash'' ''file'' (str_replace ''Abstract'' ''Metadata'' ?pb))
         \<and> sublist ''file'' (str_replace ''hash'' ''file'' (str_replace ''Abstract'' ''Metadata'' ?pb))"
    by (rule subst_contains[OF tokens_in_abstract_hash_form]) simp_all
  have p: "sublist ''Paper'' (str_replace ''hash'' ''file'' (str_replace ''Abstract'' ''Paper'' ?pb))
         \<and> sublist ''file'' (str_replace ''hash'' ''file'' (str_replace ''Abstract'' ''Paper'' ?pb))"
    by (rule subst_contains[OF tokens_in_abstract_hash_form]) simp_all
  have "paper_id_of href = ''Abstract''"
    unfolding assms(2) using assms(1) by (rule paper_id_abstract_hash_form)
  moreover have "sublist ''Metadata'' (metadata_path_of href) \<and> sublist ''file'' (metadata_path_of href)"
    using m by (simp add: metadata_path_of_def pb sublist_append)
  moreover have "suffix ''.json'' (metadata_path_of href)"
    by (simp add: metadata_path_of_def suffix_def)
  moreover have "sublist ''Paper'' (pdf_path_of href) \<and> sublist ''file'' (pdf_path_of href)"
    using p by (simp add: pdf_path_of_def pb sublist_append)
  moreover have "suffix ''.pdf'' (pdf_path_of href)"
    by (simp add: pdf_path_of_def suffix_def)
  moreover have "CHR ''-'' \<notin> set pid \<longrightarrow> paper_id_of (pre @ ''/'' @ pid @ ''-Abstract.html'') = pid"
    using assms(1) paper_id_site_form by blast
  ultimately show ?thesis by blast
qed

theorem link_deriver_abstract_hash_form_witness:
  "CHR ''/'' \<notin> set ''1234'' \<and> CHR ''-'' \<notin> set ''1234''
   \<and> paper_id_of ''/paper/2020/Abstract-hash-1234.html'' = ''Abstract''
   \<and> sublist ''Metadata'' (metadata_path_of ''/paper/2020/Abstract-hash-1234.html'')
   \<and> sublist ''file'' (metadata_path_of ''/paper/2020/Abstract-hash-1234.html'')
   \<and> suffix ''.json'' (metadata_path_of ''/paper/2020/Abstract-hash-1234.html'')
   \<and> sublist ''Paper'' (pdf_path_of ''/paper/2020/Abstract-hash-1234.html'')
   \<and> sublist ''file'' (pdf_path_of ''/paper/2020/Abstract-hash-1234.html'')
   \<and> suffix ''.pdf'' (pdf_path_of ''/paper/2020/Abstract-hash-1234.html'')
   \<and> paper_id_of ''/paper/2020/1234-Abstract.html'' = ''1234''"
  using link_deriver_abstract_hash_form
          [of "''1234''" "''/paper/2020/Abstract-hash-1234.html''" "''/paper/2020''"]
  by simp

text \<open>
  Claim C1 as stated fails: for the href \<open>/paper/2020/Abstract-hash-1234.html\<close> the
  identifier is \<open>Abstract\<close>, not \<open>1234\<close>.
\<close>

theorem paper_id_is_not_the_id:
  "paper_id_of ''/paper/2020/Abstract-hash-1234.html'' = ''Abstract''
   \<and> paper_id_of ''/paper/2020/Abstract-hash-1234.html'' \<noteq> ''1234''"
  by code_simp

lemma paper_base_prefix: "prefix (paper_base_url href) (abstract_path_of href)"
  by (simp add: paper_base_url_def abstract_path_of_def prefix_hd_str_rsplit1)

lemma site_form_urls:
  assumes "\<not> sublist ''Abstract'' (base_url @ d @ pid @ ''-'')"
  shows "metadata_path_of (d @ pid @ ''-Abstract.html'') =
           str_replace ''hash'' ''file'' (base_url @ d @ pid @ ''-'') @ ''Metadata.json''"
    and "pdf_path_of (d @ pid @ ''-Abstract.html'') =
           str_replace ''hash'' ''file'' (base_url @ d @ pid @ ''-'') @ ''Paper.pdf''"
proof -
  let ?P = "base_url @ d @ pid @ ''-''"
  have pb: "paper_base_url (d @ pid @ ''-Abstract.html'') = ?P @ ''Abstract''"
    using hd_str_rsplit1[of "CHR ''.''" "''html''" "d @ pid @ ''-Abstract''"]
    by (simp add: paper_base_url_def)
  have a: "str_replace ''Abstract'' new (?P @ ''Abstract'') = ?P @ new" for new
  proof -
    have "str_replace ''Abstract'' new (?P @ ''Abstract'' @ []) =
          str_replace ''Abstract'' new ?P @ new @ str_replace ''Abstract'' new []"
      by (rule replace_at) simp_all
    moreover have "str_replace ''Abstract'' new ?P = ?P"
      using assms by (intro replace_id) simp_all
    ultimately show ?thesis by simp
  qed
  have "str_replace ''hash'' ''file'' (?P @ ''Metadata'') =
        str_replace ''hash'' ''file'' ?P @ str_replace ''hash'' ''file'' ''Metadata''"
    by (rule replace_append) simp_all
  then show "metadata_path_of (d @ pid @ ''-Abstract.html'') =
           str_replace ''hash'' ''file'' ?P @ ''Metadata.json''"
    unfolding metadata_path_of_def pb a by simp
  have "str_replace ''hash'' ''file'' (?P @ ''Paper'') =
        str_replace ''hash'' ''file'' ?P @ str_replace ''hash'' ''file'' ''Paper''"
    by (rule replace_append) simp_all
  then show "pdf_path_of (d @ pid @ ''-Abstract.html'') =
           str_replace ''hash'' ''file'' ?P @ ''Paper.pdf''"
    unfolding pdf_path_of_def pb a by simp
qed

lemma replace_untouched:
  "old \<noteq> [] \<Longrightarrow> \<not> begins_within old k s \<Longrightarrow> k \<le> length s \<Longrightarrow>
   str_replace old new s = take k s @ str_replace old new (drop k s)"
proof (induction k arbitrary: s)
  case 0
  then show ?case by simp
next
  case (Suc k)
  then obtain c cs where s: "s = c # cs" by (cases s) auto
  with Suc.prems have np: "\<not> prefix old (c # cs)" and nb: "\<not> begins_within old k cs"
    and len: "k \<le> length cs" by simp_all
  have "str_replace old new cs = take k cs @ str_replace old new (drop k cs)"
    using Suc.IH[OF Suc.prems(1) nb len] .
  then show ?case using np Suc.prems(1) s by simp
qed

lemma prefix_into_replaced:
  assumes "new \<noteq> []" "old \<noteq> []" "hd new \<notin> set t" "prefix t (a @ str_replace old new rest)"
  shows "prefix t (a @ rest)"
proof -
  from assms(4) consider "prefix t a" | us where "t = a @ us" "prefix us (str_replace old new rest)"
    unfolding prefix_append by blast
  then show ?thesis
  proof cases
    case 1
    then show ?thesis by (simp add: prefix_prefix)
  next
    case 2
    have "hd new \<notin> set us" using assms(3) 2(1) by simp
    then have "prefix us rest" using replace_copied_prefix[OF assms(1,2)] 2(2) by blast
    then show ?thesis using 2(1) by simp
  qed
qed

lemma prefix_out_of_replaced:
  assumes "old \<noteq> []" "hd old \<notin> set t" "prefix t (a @ rest)"
  shows "prefix t (a @ str_replace old new rest)"
proof -
  from assms(3) consider "prefix t a" | us where "t = a @ us" "prefix us rest"
    unfolding prefix_append by blast
  then show ?thesis
  proof cases
    case 1
    then show ?thesis by (simp add: prefix_prefix)
  next
    case 2
    then obtain r where r: "rest = us @ r" by (auto simp: prefix_def)
    have "hd old \<notin> set us" using assms(2) 2(1) by simp
    then have "str_replace old new rest = us @ str_replace old new r"
      unfolding r using replace_skip[OF assms(1)] by blast
    then show ?thesis using 2(1) by simp
  qed
qed

lemma begins_within_replaced:
  "new \<noteq> [] \<Longrightarrow> old \<noteq> [] \<Longrightarrow> t \<noteq> [] \<Longrightarrow> hd new \<notin> set t \<Longrightarrow>
   begins_within t (length a) (a @ str_replace old new rest) \<Longrightarrow>
   begins_within t (length a) (a @ rest)"
proof (induction a)
  case Nil
  then show ?case by simp
next
  case (Cons c a)
  from Cons.prems(5) consider "prefix t ((c # a) @ str_replace old new rest)"
    | "begins_within t (length a) (a @ str_replace old new rest)" by auto
  then show ?case
  proof cases
    case 1
    then have "prefix t ((c # a) @ rest)"
      using prefix_into_replaced[OF Cons.prems(1,2,4)] by blast
    then show ?thesis by simp
  next
    case 2
    then show ?thesis using Cons.IH[OF Cons.prems(1-4)] by simp
  qed
qed

lemma begins_within_unreplaced:
  "old \<noteq> [] \<Longrightarrow> t \<noteq> [] \<Longrightarrow> hd old \<notin> set t \<Longrightarrow>
   begins_within t (length a) (a @ rest) \<Longrightarrow>
   begins_within t (length a) (a @ str_replace old new rest)"
proof (induction a)
  case Nil
  then show ?case by simp
next
  case (Cons c a)
  from Cons.prems(4) consider "prefix t ((c # a) @ rest)"
    | "begins_within t (length a) (a @ rest)" by auto
  then show ?case
  proof cases
    case 1
    then have "prefix t ((c # a) @ str_replace old new rest)"
      using prefix_out_of_replaced[OF Cons.prems(1,3)] by blast
    then show ?thesis by simp
  next
    case 2
    then show ?thesis using Cons.IH[OF Cons.prems(1-3)] by simp
  qed
qed

text \<open>The first occurrence is replaced where it stands, so the result differs there.\<close>

lemma replace_changes_first:
  assumes "old \<noteq> []" "new \<noteq> []" "hd new \<noteq> hd old" "begins_within old k s"
    and "prefix q s" "k \<le> length q"
  shows "\<not> prefix q (str_replace old new s @ ext)"
  using assms(4-6)
proof (induction k arbitrary: s q)
  case 0
  then show ?case by simp
next
  case (Suc k)
  from Suc.prems(2,3) obtain c q' where q: "q = c # q'" by (cases q) auto
  with Suc.prems(2) obtain cs where s: "s = c # cs" and pq: "prefix q' cs"
    by (cases s) auto
  show ?case
  proof (cases "prefix old (c # cs)")
    case True
    then have "c = hd old" using assms(1) by (cases old) auto
    moreover have "str_replace old new s = new @ str_replace old new (drop (length old - 1) cs)"
      using True assms(1) s by simp
    ultimately show ?thesis using assms(2,3) q by (cases new) auto
  next
    case False
    then have b: "begins_within old k cs" using Suc.prems(1) s by simp
    have "\<not> prefix q' (str_replace old new cs @ ext)"
      using Suc.IH[OF b pq] Suc.prems(3) q by simp
    then show ?thesis using False assms(1) s q by simp
  qed
qed


lemma replace_at_front:
  "old \<noteq> [] \<Longrightarrow> str_replace old new (old @ r) = new @ str_replace old new r"
  by (cases old) simp_all

text \<open>
  The two substitutions in a row, for tokens \<open>A\<close> and \<open>H\<close> replaced by \<open>X\<close> and \<open>F\<close>:
  they leave a prefix alone in which no token begins, and they change one in which a
  token begins.
\<close>

lemma subst_untouched:
  assumes X: "X \<noteq> []" "hd X \<notin> set H" and AH: "A \<noteq> []" "H \<noteq> []"
  shows "\<not> begins_within A k s \<Longrightarrow> \<not> begins_within H k s \<Longrightarrow> k \<le> length s \<Longrightarrow>
     str_replace H F (str_replace A X s) =
     take k s @ str_replace H F (str_replace A X (drop k s))"
proof (induction k arbitrary: s)
  case 0
  then show ?case by simp
next
  case (Suc k)
  then obtain c cs where s: "s = c # cs" by (cases s) auto
  with Suc.prems have na: "\<not> prefix A (c # cs)" and nh: "\<not> prefix H (c # cs)"
    and ba: "\<not> begins_within A k cs" and bh: "\<not> begins_within H k cs"
    and len: "k \<le> length cs" by simp_all
  have m1: "str_replace A X (c # cs) = c # str_replace A X cs"
    using na AH(1) by simp
  have "\<not> prefix H ([c] @ str_replace A X cs)"
    using prefix_into_replaced[OF X(1) AH(1) X(2), of "[c]" cs] nh by auto
  then have "str_replace H F (c # str_replace A X cs) = c # str_replace H F (str_replace A X cs)"
    using AH(2) by simp
  then show ?case using m1 s Suc.IH[OF ba bh len] by simp
qed

lemma subst_changes:
  assumes X: "X \<noteq> []" "hd X \<notin> set H" "hd X \<noteq> hd A"
    and AH: "A \<noteq> []" "H \<noteq> []" "hd A \<notin> set H"
    and F: "F \<noteq> []" "hd F \<noteq> hd H"
  shows "begins_within A k s \<or> begins_within H k s \<Longrightarrow> prefix q s \<Longrightarrow> k \<le> length q \<Longrightarrow>
     \<not> prefix q (str_replace H F (str_replace A X s) @ ext)"
proof (induction k arbitrary: s q)
  case 0
  then show ?case by simp
next
  case (Suc k)
  from Suc.prems(2,3) obtain c q' where q: "q = c # q'" by (cases q) auto
  with Suc.prems(2) obtain cs where s: "s = c # cs" and pq: "prefix q' cs"
    by (cases s) auto
  obtain x X' where Xc: "X = x # X'" using X(1) by (cases X) auto
  obtain f F' where Fc: "F = f # F'" using F(1) by (cases F) auto
  have hdH: "hd H \<in> set H" using AH(2) by simp
  have xh: "x \<noteq> hd H" using X(2) Xc hdH by auto
  have xa: "x \<noteq> hd A" using X(3) Xc by simp
  have fh: "f \<noteq> hd H" using F(2) Fc by simp
  consider (abs) "prefix A (c # cs)"
    | (hash) "\<not> prefix A (c # cs)" "prefix H (c # cs)"
    | (none) "\<not> prefix A (c # cs)" "\<not> prefix H (c # cs)"
    by blast
  then show ?case
  proof cases
    case abs
    then have c: "c = hd A" using AH(1) by (cases A) auto
    have "str_replace A X (c # cs) = x # X' @ str_replace A X (drop (length A - 1) cs)"
      using abs Xc AH(1) by simp
    moreover have "\<not> prefix H (x # t)" for t using xh AH(2) by (cases H) auto
    ultimately have "str_replace H F (str_replace A X (c # cs)) =
          x # str_replace H F (X' @ str_replace A X (drop (length A - 1) cs))"
      using AH(2) by simp
    then show ?thesis using c xa s q by simp
  next
    case hash
    then have c: "c = hd H" using AH(2) by (cases H) auto
    from hash(2) obtain r where r: "c # cs = H @ r" by (auto simp: prefix_def)
    have "str_replace A X (H @ r) = H @ str_replace A X r"
      using AH(1,3) by (rule replace_skip)
    then have "str_replace H F (str_replace A X (c # cs)) =
          F @ str_replace H F (str_replace A X r)"
      unfolding r using replace_at_front[OF AH(2)] by simp
    then show ?thesis using c fh Fc s q by simp
  next
    case none
    have m1: "str_replace A X (c # cs) = c # str_replace A X cs"
      using none(1) AH(1) by simp
    have "\<not> prefix H ([c] @ str_replace A X cs)"
      using prefix_into_replaced[OF X(1) AH(1) X(2), of "[c]" cs] none(2) by auto
    then have m2: "str_replace H F (c # str_replace A X cs) =
             c # str_replace H F (str_replace A X cs)"
      using AH(2) by simp
    have b: "begins_within A k cs \<or> begins_within H k cs"
      using Suc.prems(1) none s by simp
    have "\<not> prefix q' (str_replace H F (str_replace A X cs) @ ext)"
      using Suc.IH[OF b pq] Suc.prems(3) q by simp
    then show ?thesis using m1 m2 s q by simp
  qed
qed

lemma shares_if_tokens_after:
  assumes "tokens_after_identifier href"
  shows "shares_identifier_prefix href"
proof -
  let ?ip = "identifier_prefix href" and ?pb = "paper_base_url href"
  from assms have p: "prefix ?ip ?pb"
    and a: "\<not> begins_within ''Abstract'' (length ?ip) ?pb"
    and h: "\<not> begins_within ''hash'' (length ?ip) ?pb"
    by (simp_all add: tokens_after_identifier_def)
  have len: "length ?ip \<le> length ?pb" using p by (rule prefix_length_le)
  have tk: "take (length ?ip) ?pb = ?ip" using p by (auto simp: prefix_def)
  have "prefix ?ip (str_replace ''hash'' ''file'' (str_replace ''Abstract'' X ?pb) @ ext)"
    if "X \<noteq> []" "hd X \<notin> set ''hash''" for X ext
    using subst_untouched[OF that _ _ a h len, of "''file''"] tk by simp
  from this[of "''Metadata''" "''.json''"] this[of "''Paper''" "''.pdf''"]
  have "prefix ?ip (metadata_path_of href)" "prefix ?ip (pdf_path_of href)"
    by (simp_all add: metadata_path_of_def pdf_path_of_def)
  moreover have "prefix ?ip (abstract_path_of href)"
    using p paper_base_prefix by (rule prefix_order.trans)
  ultimately show ?thesis by (simp add: shares_identifier_prefix_def)
qed

lemma tokens_after_if_shares:
  assumes "prefix (identifier_prefix href) (paper_base_url href)" "shares_identifier_prefix href"
  shows "tokens_after_identifier href"
proof (rule ccontr)
  let ?ip = "identifier_prefix href" and ?pb = "paper_base_url href"
  assume "\<not> tokens_after_identifier href"
  then have b: "begins_within ''Abstract'' (length ?ip) ?pb \<or> begins_within ''hash'' (length ?ip) ?pb"
    using assms(1) by (auto simp: tokens_after_identifier_def)
  have "\<not> prefix ?ip (str_replace ''hash'' ''file'' (str_replace ''Abstract'' ''Metadata'' ?pb)
                @ ''.json'')"
    by (rule subst_changes[OF _ _ _ _ _ _ _ _ b assms(1)]) simp_all
  then show False using assms(2) by (simp add: shares_identifier_prefix_def metadata_path_of_def)
qed

text \<open>
  Claim C8, as amended. For every anchor href the three derived URLs are determined by
  the same base path, the base endpoint followed by the href without its extension: the
  abstract URL starts with it, and the metadata URL and the PDF URL are what the token
  substitution makes of it, each with its extension. The three share the
  identifier-bearing prefix whenever the tokens stand after the identifier, that is, the
  base path reaches to the end of the identifier and no occurrence of \<open>Abstract\<close> or
  \<open>hash\<close> begins inside the prefix; and when the base path reaches that far, they share
  it in no other case. For an href \<open><dir><id>-Abstract.html\<close> whose part before that
  \<open>Abstract\<close> contains no other one, the metadata URL and the PDF URL share the prefix
  that the substitution of \<open>hash\<close> makes of that part.
\<close>

theorem derived_urls_same_base:
  "prefix (paper_base_url href) (abstract_path_of href)
   \<and> metadata_path_of href =
       str_replace ''hash'' ''file'' (str_replace ''Abstract'' ''Metadata'' (paper_base_url href))
         @ ''.json''
   \<and> pdf_path_of href =
       str_replace ''hash'' ''file'' (str_replace ''Abstract'' ''Paper'' (paper_base_url href))
         @ ''.pdf''
   \<and> (tokens_after_identifier href \<longrightarrow> shares_identifier_prefix href)
   \<and> (prefix (identifier_prefix href) (paper_base_url href) \<and> shares_identifier_prefix href
      \<longrightarrow> tokens_after_identifier href)
   \<and> (\<not> sublist ''Abstract'' (base_url @ d @ pid @ ''-'')
      \<longrightarrow> metadata_path_of (d @ pid @ ''-Abstract.html'') =
            str_replace ''hash'' ''file'' (base_url @ d @ pid @ ''-'') @ ''Metadata.json''
        \<and> pdf_path_of (d @ pid @ ''-Abstract.html'') =
            str_replace ''hash'' ''file'' (base_url @ d @ pid @ ''-'') @ ''Paper.pdf'')"
  using paper_base_prefix shares_if_tokens_after tokens_after_if_shares site_form_urls
  by (simp add: metadata_path_of_def pdf_path_of_def)

theorem derived_urls_same_base_witness:
  "tokens_after_identifier ''/paper/2020/1234-Abstract.html''
   \<and> prefix (identifier_prefix ''/paper/2020/1234-Abstract.html'')
        (paper_base_url ''/paper/2020/1234-Abstract.html'')
   \<and> identifier_prefix ''/paper/2020/1234-Abstract.html'' = ''https://papers.nips.cc/paper/2020/1234''
   \<and> shares_identifier_prefix ''/paper/2020/1234-Abstract.html''
   \<and> metadata_path_of ''/paper/2020/1234-Abstract.html'' =
        ''https://papers.nips.cc/paper/2020/1234-Metadata.json''
   \<and> \<not> sublist ''Abstract'' (base_url @ ''/paper/2020/hash/'' @ ''1234'' @ ''-'')
   \<and> metadata_path_of ''/paper/2020/hash/1234-Abstract.html'' =
        str_replace ''hash'' ''file'' (base_url @ ''/paper/2020/hash/1234-'') @ ''Metadata.json''
   \<and> pdf_path_of ''/paper/2020/hash/1234-Abstract.html'' =
        str_replace ''hash'' ''file'' (base_url @ ''/paper/2020/hash/1234-'') @ ''Paper.pdf''"
proof -
  have h1: "tokens_after_identifier ''/paper/2020/1234-Abstract.html''" by code_simp
  have h2: "prefix (identifier_prefix ''/paper/2020/1234-Abstract.html'')
              (paper_base_url ''/paper/2020/1234-Abstract.html'')" by code_simp
  have h3: "identifier_prefix ''/paper/2020/1234-Abstract.html'' =
              ''https://papers.nips.cc/paper/2020/1234''" by code_simp
  have h4: "\<not> sublist ''Abstract'' (base_url @ ''/paper/2020/hash/'' @ ''1234'' @ ''-'')" by code_simp
  have h5: "metadata_path_of ''/paper/2020/1234-Abstract.html'' =
        ''https://papers.nips.cc/paper/2020/1234-Metadata.json''" by code_simp
  show ?thesis
    using h1 h2 h3 h4 h5
      derived_urls_same_base
        [of "''/paper/2020/1234-Abstract.html''" "''/paper/2020/hash/''" "''1234''"]
    by simp
qed

text \<open>
  Claim C8 as stated fails: for the href \<open>/paper_files/paper/2020/hash/1234-Abstract.html\<close>
  the identifier is \<open>1234\<close>, and the longest prefix common to the three URLs ends before
  the directory \<open>hash\<close>, which the substitution turns into \<open>file\<close>; for
  \<open>/paper/2020/Abstract-hash-1234.html\<close> it ends before the file name.
\<close>

theorem identifier_prefix_not_shared:
  "paper_id_of ''/paper_files/paper/2020/hash/1234-Abstract.html'' = ''1234''
   \<and> common_prefix (abstract_path_of ''/paper_files/paper/2020/hash/1234-Abstract.html'')
        (common_prefix (metadata_path_of ''/paper_files/paper/2020/hash/1234-Abstract.html'')
                       (pdf_path_of ''/paper_files/paper/2020/hash/1234-Abstract.html''))
      = ''https://papers.nips.cc/paper_files/paper/2020/''
   \<and> \<not> shares_identifier_prefix ''/paper_files/paper/2020/hash/1234-Abstract.html''
   \<and> common_prefix (abstract_path_of ''/paper/2020/Abstract-hash-1234.html'')
        (common_prefix (metadata_path_of ''/paper/2020/Abstract-hash-1234.html'')
                       (pdf_path_of ''/paper/2020/Abstract-hash-1234.html''))
      = ''https://papers.nips.cc/paper/2020/''
   \<and> \<not> shares_identifier_prefix ''/paper/2020/Abstract-hash-1234.html''"
  by code_simp

text \<open>
  Claim C10. The substitution that derives the metadata and PDF URLs works on the whole
  extension-stripped URL, base endpoint and full href path, first on \<open>Abstract\<close> and then
  on \<open>hash\<close>, and it is global: no occurrence of \<open>Abstract\<close> and no occurrence of
  \<open>hash\<close> is left anywhere in the derived URL, an occurrence of \<open>Abstract\<close> at any
  position is replaced where it stands, and tokens in directory segments and inside the
  identifier are replaced like the one in the file name.
\<close>

theorem substitution_is_global:
  "metadata_path_of href =
     str_replace ''hash'' ''file''
       (str_replace ''Abstract'' ''Metadata'' (base_url @ hd (str_rsplit1 CHR ''.'' href))) @ ''.json''
   \<and> pdf_path_of href =
     str_replace ''hash'' ''file''
       (str_replace ''Abstract'' ''Paper'' (base_url @ hd (str_rsplit1 CHR ''.'' href))) @ ''.pdf''
   \<and> \<not> sublist ''Abstract'' (metadata_path_of href) \<and> \<not> sublist ''hash'' (metadata_path_of href)
   \<and> \<not> sublist ''Abstract'' (pdf_path_of href) \<and> \<not> sublist ''hash'' (pdf_path_of href)
   \<and> str_replace ''Abstract'' new (a @ ''Abstract'' @ b) =
       str_replace ''Abstract'' new a @ new @ str_replace ''Abstract'' new b
   \<and> metadata_path_of ''/paper/hash/Abstract/7hash7-Abstract.html'' =
       ''https://papers.nips.cc/paper/file/Metadata/7file7-Metadata.json''
   \<and> pdf_path_of ''/paper/hash/Abstract/7hash7-Abstract.html'' =
       ''https://papers.nips.cc/paper/file/Paper/7file7-Paper.pdf''"
proof -
  have m: "\<not> sublist ''Abstract'' (metadata_path_of href) \<and> \<not> sublist ''hash'' (metadata_path_of href)"
    unfolding metadata_path_of_def by (rule subst_removes) simp_all
  have p: "\<not> sublist ''Abstract'' (pdf_path_of href) \<and> \<not> sublist ''hash'' (pdf_path_of href)"
    unfolding pdf_path_of_def by (rule subst_removes) simp_all
  have at: "str_replace ''Abstract'' new (a @ ''Abstract'' @ b) =
       str_replace ''Abstract'' new a @ new @ str_replace ''Abstract'' new b"
    by (rule replace_at) simp_all
  have e1: "metadata_path_of ''/paper/hash/Abstract/7hash7-Abstract.html'' =
       ''https://papers.nips.cc/paper/file/Metadata/7file7-Metadata.json''"
    by code_simp
  have e2: "pdf_path_of ''/paper/hash/Abstract/7hash7-Abstract.html'' =
       ''https://papers.nips.cc/paper/file/Paper/7file7-Paper.pdf''"
    by code_simp
  show ?thesis
    using m p at e1 e2 by (simp add: metadata_path_of_def pdf_path_of_def paper_base_url_def)
qed

section \<open>Orchestrator, fetchers and archiver\<close>

lemma author_contents_all: "author_contents (map Some authors) = Inr authors"
  by (induction authors) simp_all

lemma paper_body_breaks: "paper_body e yd p = (evs, Inr f) \<Longrightarrow> f = Break"
  by (cases p) (auto simp: paper_body_def Let_def split: sum.splits option.splits)

lemma for_papers_first:
  "for_papers e yd (p # ps) = (fst (paper_body e yd p), map_sum id (\<lambda>f. ()) (snd (paper_body e yd p)))"
proof (cases "paper_body e yd p")
  case (Pair evs r)
  show ?thesis
  proof (cases r)
    case (Inl a)
    with Pair show ?thesis by simp
  next
    case (Inr f)
    with Pair have "f = Break" using paper_body_breaks by blast
    with Pair Inr show ?thesis by simp
  qed
qed

text \<open>
  Claim C4. For every year of the requested range the Orchestrator archives only the
  first paper of that year's listing page: the loop over the papers does on a listing
  what it does on the first paper alone, whatever papers follow; and when the body has
  run on the first paper without raising, so that its three artifacts are written, it
  ends by \<^verbatim>\<open>break\<close> and the run goes on with the next year.
\<close>

theorem only_first_paper_per_year:
  "for_papers e year_dir (p # ps) = for_papers e year_dir [p]
   \<and> (get_paper_paths e year = (evs, Inr (paper_ids, abstract_paths, metadata_paths, pdf_paths))
        \<and> zip paper_ids (zip abstract_paths (zip metadata_paths pdf_paths)) = p # ps
        \<and> paper_body e (path_join ''../data'' (py_str year)) p = (evs2, Inr f)
      \<longrightarrow> f = Break
        \<and> for_years e (year # years) =
            (evs @ evs2 @ fst (for_years e years), snd (for_years e years)))"
proof -
  have one: "for_papers e year_dir (p # ps) = for_papers e year_dir [p]"
    by (simp only: for_papers_first)
  have adv: "f = Break \<and> for_years e (year # years) =
            (evs @ evs2 @ fst (for_years e years), snd (for_years e years))"
    if g: "get_paper_paths e year = (evs, Inr (paper_ids, abstract_paths, metadata_paths, pdf_paths))"
      and z: "zip paper_ids (zip abstract_paths (zip metadata_paths pdf_paths)) = p # ps"
      and b: "paper_body e (path_join ''../data'' (py_str year)) p = (evs2, Inr f)"
  proof -
    have f: "f = Break" using b by (rule paper_body_breaks)
    have "for_papers e (path_join ''../data'' (py_str year)) (p # ps) = (evs2, Inr ())"
      using b f by simp
    then show ?thesis
      using g z f by (simp add: Let_def split: prod.splits)
  qed
  show ?thesis using one adv by blast
qed


theorem only_first_paper_per_year_witness:
  "get_paper_paths site_ok 2020 =
     ([HttpGet ''https://papers.nips.cc/paper/2020''],
      Inr ([''1234'', ''5678''],
           [''https://papers.nips.cc/paper_files/paper/2020/hash/1234-Abstract.html'',
            ''https://papers.nips.cc/paper_files/paper/2020/hash/5678-Abstract.html''],
           [''https://papers.nips.cc/paper_files/paper/2020/file/1234-Metadata.json'',
            ''https://papers.nips.cc/paper_files/paper/2020/file/5678-Metadata.json''],
           [''https://papers.nips.cc/paper_files/paper/2020/file/1234-Paper.pdf'',
            ''https://papers.nips.cc/paper_files/paper/2020/file/5678-Paper.pdf'']))
   \<and> for_years site_ok [2020] =
     ([HttpGet ''https://papers.nips.cc/paper/2020'',
       MakeDirs ''../data/2020/1234'',
       HttpGet ''https://papers.nips.cc/paper_files/paper/2020/hash/1234-Abstract.html'',
       HttpGet ''https://papers.nips.cc/paper_files/paper/2020/file/1234-Metadata.json'',
       HttpGet ''https://papers.nips.cc/paper_files/paper/2020/file/1234-Paper.pdf'',
       DumpJson ''../data/2020/1234/1234_abstract.json''
         (JObj [(''title'', JStr ''A Title''),
                (''authors'', JArr [JStr ''A. Author'', JStr ''B. Author'']),
                (''abstract'', JStr ''An abstract.'')]),
       DumpJson ''../data/2020/1234/1234_metadata.json'' (JObj [(''title'', JStr ''A Title'')]),
       OpenWB ''../data/2020/1234/1234.pdf'',
       WriteBytes ''../data/2020/1234/1234.pdf'' ''%PDF''],
      Inr ())"
proof -
  let ?p = "(''1234'',
             ''https://papers.nips.cc/paper_files/paper/2020/hash/1234-Abstract.html'',
             ''https://papers.nips.cc/paper_files/paper/2020/file/1234-Metadata.json'',
             ''https://papers.nips.cc/paper_files/paper/2020/file/1234-Paper.pdf'')"
  let ?q = "(''5678'',
             ''https://papers.nips.cc/paper_files/paper/2020/hash/5678-Abstract.html'',
             ''https://papers.nips.cc/paper_files/paper/2020/file/5678-Metadata.json'',
             ''https://papers.nips.cc/paper_files/paper/2020/file/5678-Paper.pdf'')"
  let ?evs2 = "[MakeDirs ''../data/2020/1234'',
       HttpGet ''https://papers.nips.cc/paper_files/paper/2020/hash/1234-Abstract.html'',
       HttpGet ''https://papers.nips.cc/paper_files/paper/2020/file/1234-Metadata.json'',
       HttpGet ''https://papers.nips.cc/paper_files/paper/2020/file/1234-Paper.pdf'',
       DumpJson ''../data/2020/1234/1234_abstract.json''
         (JObj [(''title'', JStr ''A Title''),
                (''authors'', JArr [JStr ''A. Author'', JStr ''B. Author'']),
                (''abstract'', JStr ''An abstract.'')]),
       DumpJson ''../data/2020/1234/1234_metadata.json'' (JObj [(''title'', JStr ''A Title'')]),
       OpenWB ''../data/2020/1234/1234.pdf'',
       WriteBytes ''../data/2020/1234/1234.pdf'' ''%PDF'']"
  have g: "get_paper_paths site_ok 2020 =
     ([HttpGet ''https://papers.nips.cc/paper/2020''],
      Inr ([''1234'', ''5678''],
           [''https://papers.nips.cc/paper_files/paper/2020/hash/1234-Abstract.html'',
            ''https://papers.nips.cc/paper_files/paper/2020/hash/5678-Abstract.html''],
           [''https://papers.nips.cc/paper_files/paper/2020/file/1234-Metadata.json'',
            ''https://papers.nips.cc/paper_files/paper/2020/file/5678-Metadata.json''],
           [''https://papers.nips.cc/paper_files/paper/2020/file/1234-Paper.pdf'',
            ''https://papers.nips.cc/paper_files/paper/2020/file/5678-Paper.pdf'']))"
    by code_simp
  have b: "paper_body site_ok (path_join ''../data'' (py_str 2020)) ?p = (?evs2, Inr Break)"
    by code_simp
  have "for_years site_ok (2020 # []) =
          ([HttpGet ''https://papers.nips.cc/paper/2020''] @ ?evs2 @ fst (for_years site_ok []),
           snd (for_years site_ok []))"
    using only_first_paper_per_year
            [of site_ok _ ?p "[?q]" 2020 "[HttpGet ''https://papers.nips.cc/paper/2020'']"
                _ _ _ _ ?evs2 Break "[]"] g b
    by simp
  then show ?thesis using g by simp
qed

lemma for_years_aborts:
  "snd (for_years e years) = Inl a \<Longrightarrow> a = SystemExit_code 1 \<or> (\<exists>x. a = Uncaught x)"
proof (induction years)
  case Nil
  then show ?case by simp
next
  case (Cons year years)
  have pb: "\<exists>x. a' = Uncaught x"
    if "snd (paper_body e yd p) = Inl a'" for yd p a'
    using that by (cases p) (auto simp: paper_body_def Let_def split: sum.splits option.splits)
  have fp: "\<exists>x. a' = Uncaught x" if "snd (for_papers e yd ps) = Inl a'" for yd ps a'
  proof (cases ps)
    case Nil
    with that show ?thesis by simp
  next
    case (Cons p ps')
    have "snd (for_papers e yd (p # ps')) = map_sum id (\<lambda>f. ()) (snd (paper_body e yd p))"
      by (simp only: for_papers_first snd_conv)
    with that Cons have "snd (paper_body e yd p) = Inl a'"
      by (cases "snd (paper_body e yd p)") simp_all
    then show ?thesis using pb by blast
  qed
  have gp: "a' = SystemExit_code 1 \<or> (\<exists>x. a' = Uncaught x)"
    if "snd (get_paper_paths e year) = Inl a'" for a'
    using that by (auto simp: get_paper_paths_def Let_def split: option.splits sum.splits)
  show ?case
  proof (cases "get_paper_paths e year")
    case (Pair evs r)
    show ?thesis
    proof (cases r)
      case (Inl a')
      with Pair Cons.prems have "a' = a" by simp
      with Pair Inl gp[of a] show ?thesis by simp
    next
      case (Inr ps)
      obtain ids abs mds pdfs where ps: "ps = (ids, abs, mds, pdfs)" by (cases ps) auto
      let ?F = "for_papers e (path_join ''../data'' (py_str year)) (zip ids (zip abs (zip mds pdfs)))"
      show ?thesis
      proof (cases "snd ?F")
        case (Inl a')
        then have "a' = a" using Pair Inr ps Cons.prems by (cases ?F) (simp add: Let_def)
        with Inl fp show ?thesis by blast
      next
        case u: (Inr u)
        then have "snd (for_years e years) = Inl a"
          using Pair Inr ps Cons.prems by (cases ?F; cases "for_years e years") (simp add: Let_def)
        then show ?thesis by (rule Cons.IH)
      qed
    qed
  qed
qed

lemma main_aborts:
  "snd (main e c) = Inl a \<longrightarrow>
   a = SystemExit_code 1 \<or> (\<exists>x. a = Uncaught x)
   \<or> (\<exists>d. a = SystemExit_msg (''Output directory '' @ d @ '' does not exist''))"
proof (cases "get_args e c")
  case (Inl x)
  then show ?thesis by (auto simp: main_def)
next
  case (Inr args)
  show ?thesis
  proof (cases "path_exists e (output_dir args)")
    case False
    with Inr show ?thesis by (auto simp: main_def)
  next
    case True
    with Inr have "snd (main e c) = snd (for_years e [start_year args .. end_year args])"
      by (simp add: main_def split: prod.splits)
    then show ?thesis using for_years_aborts[of e "[start_year args .. end_year args]"] by auto
  qed
qed

text \<open>
  Claim C2 says that the Orchestrator ends with a fatal error, before any download, when
  the start year is below 1987 or above the end year. \<open>check_args\<close> does that (and lets
  1987 to 1987 pass), but \<open>main\<close> never calls it: on a site where every request succeeds,
  \<open>main\<close> with the years 1986 to 1986 downloads and archives a paper and returns
  normally, with the years 2000 to 1999 it returns normally without processing a year,
  and no run of \<open>main\<close> ends with one of the two messages of \<open>check_args\<close>.
\<close>

theorem main_never_checks_years:
  "check_args \<lparr> start_year = 1986, end_year = 1986, output_dir = ''data'' \<rparr> =
     Inl (SystemExit_msg ''Start year must be 1987 or later'')
   \<and> main site_ok (years_cli 1986 1986 ''data'') =
     ([HttpGet ''https://papers.nips.cc/'',
       HttpGet ''https://papers.nips.cc/paper/1986'',
       MakeDirs ''../data/1986/1234'',
       HttpGet ''https://papers.nips.cc/paper_files/paper/2020/hash/1234-Abstract.html'',
       HttpGet ''https://papers.nips.cc/paper_files/paper/2020/file/1234-Metadata.json'',
       HttpGet ''https://papers.nips.cc/paper_files/paper/2020/file/1234-Paper.pdf'',
       DumpJson ''../data/1986/1234/1234_abstract.json''
         (JObj [(''title'', JStr ''A Title''),
                (''authors'', JArr [JStr ''A. Author'', JStr ''B. Author'']),
                (''abstract'', JStr ''An abstract.'')]),
       DumpJson ''../data/1986/1234/1234_metadata.json'' (JObj [(''title'', JStr ''A Title'')]),
       OpenWB ''../data/1986/1234/1234.pdf'',
       WriteBytes ''../data/1986/1234/1234.pdf'' ''%PDF''],
      Inr ())
   \<and> check_args \<lparr> start_year = 2000, end_year = 1999, output_dir = ''data'' \<rparr> =
     Inl (SystemExit_msg ''Start year must be less than or equal to end year'')
   \<and> main site_ok (years_cli 2000 1999 ''data'') = ([HttpGet ''https://papers.nips.cc/''], Inr ())
   \<and> check_args \<lparr> start_year = 1987, end_year = 1987, output_dir = ''data'' \<rparr> = Inr ()
   \<and> snd (main e c) \<noteq> Inl (SystemExit_msg ''Start year must be 1987 or later'')
   \<and> snd (main e c) \<noteq>
       Inl (SystemExit_msg ''Start year must be less than or equal to end year'')"
proof -
  have "snd (main e c) \<noteq> Inl (SystemExit_msg ''Start year must be 1987 or later'')"
    using main_aborts[of e c "SystemExit_msg ''Start year must be 1987 or later''"] by auto
  moreover have "snd (main e c) \<noteq>
      Inl (SystemExit_msg ''Start year must be less than or equal to end year'')"
    using main_aborts[of e c "SystemExit_msg ''Start year must be less than or equal to end year''"]
    by auto
  moreover have "check_args \<lparr> start_year = 1986, end_year = 1986, output_dir = ''data'' \<rparr> =
     Inl (SystemExit_msg ''Start year must be 1987 or later'')" by code_simp
  moreover have "check_args \<lparr> start_year = 2000, end_year = 1999, output_dir = ''data'' \<rparr> =
     Inl (SystemExit_msg ''Start year must be less than or equal to end year'')" by code_simp
  moreover have "check_args \<lparr> start_year = 1987, end_year = 1987, output_dir = ''data'' \<rparr> = Inr ()"
    by code_simp
  moreover have "main site_ok (years_cli 2000 1999 ''data'') = ([HttpGet ''https://papers.nips.cc/''], Inr ())"
    by code_simp
  moreover have "main site_ok (years_cli 1986 1986 ''data'') =
     ([HttpGet ''https://papers.nips.cc/'',
       HttpGet ''https://papers.nips.cc/paper/1986'',
       MakeDirs ''../data/1986/1234'',
       HttpGet ''https://papers.nips.cc/paper_files/paper/2020/hash/1234-Abstract.html'',
       HttpGet ''https://papers.nips.cc/paper_files/paper/2020/file/1234-Metadata.json'',
       HttpGet ''https://papers.nips.cc/paper_files/paper/2020/file/1234-Paper.pdf'',
       DumpJson ''../data/1986/1234/1234_abstract.json''
         (JObj [(''title'', JStr ''A Title''),
                (''authors'', JArr [JStr ''A. Author'', JStr ''B. Author'']),
                (''abstract'', JStr ''An abstract.'')]),
       DumpJson ''../data/1986/1234/1234_metadata.json'' (JObj [(''title'', JStr ''A Title'')]),
       OpenWB ''../data/1986/1234/1234.pdf'',
       WriteBytes ''../data/1986/1234/1234.pdf'' ''%PDF''],
      Inr ())" by code_simp
  ultimately show ?thesis by blast
qed

lemma main_output_dir_irrelevant:
  "path_exists e d \<Longrightarrow> path_exists e d' \<Longrightarrow>
   main e (c\<lparr>cli_output_dir := Some d\<rparr>) = main e (c\<lparr>cli_output_dir := Some d'\<rparr>)"
  by (cases "get_latest_conference_year e") (simp_all add: main_def get_args_def)

text \<open>
  Claim C3 says that the three files of a paper are written under
  \<open><output_dir>/<year>/<paper_id>/\<close>. The file names are as claimed, but the root is the
  fixed \<open>../data\<close>, whatever \<open>--output_dir\<close> says: run with \<open>--output_dir out\<close> for the
  year 2020, \<open>main\<close> writes \<open>../data/2020/1234/1234_abstract.json\<close>,
  \<open>../data/2020/1234/1234_metadata.json\<close> and \<open>../data/2020/1234/1234.pdf\<close>.
\<close>

theorem main_ignores_output_dir:
  "main site_ok (years_cli 2020 2020 ''out'') =
     ([HttpGet ''https://papers.nips.cc/'',
       HttpGet ''https://papers.nips.cc/paper/2020'',
       MakeDirs ''../data/2020/1234'',
       HttpGet ''https://papers.nips.cc/paper_files/paper/2020/hash/1234-Abstract.html'',
       HttpGet ''https://papers.nips.cc/paper_files/paper/2020/file/1234-Metadata.json'',
       HttpGet ''https://papers.nips.cc/paper_files/paper/2020/file/1234-Paper.pdf'',
       DumpJson ''../data/2020/1234/1234_abstract.json''
         (JObj [(''title'', JStr ''A Title''),
                (''authors'', JArr [JStr ''A. Author'', JStr ''B. Author'']),
                (''abstract'', JStr ''An abstract.'')]),
       DumpJson ''../data/2020/1234/1234_metadata.json'' (JObj [(''title'', JStr ''A Title'')]),
       OpenWB ''../data/2020/1234/1234.pdf'',
       WriteBytes ''../data/2020/1234/1234.pdf'' ''%PDF''],
      Inr ())"
  by code_simp

text \<open>
  Claim C5, as amended. When the abstract page comes with a status other than 200, the
  abstract result is the empty string, and on status 200 with a page of the expected
  structure it is the record of title, authors in document order and whitespace-collapsed
  abstract; the result is what is written to \<open><paper_id>_abstract.json\<close>, so that after a
  failed fetch the file holds the empty JSON string.
\<close>

theorem get_abstract_result:
  "requests_get e abstract_path = Some r \<Longrightarrow>
     (status_code r \<noteq> 200 \<longrightarrow> get_abstract e abstract_path = Inr (JStr []))
   \<and> (status_code r = 200 \<and> abstract_par (html r) = Some par
        \<and> title_meta (html r) = Some (Some title) \<and> author_metas (html r) = map Some authors
      \<longrightarrow> get_abstract e abstract_path =
            Inr (JObj [(''title'', JStr title),
                       (''authors'', JArr (map JStr authors)),
                       (''abstract'', JStr (collapse_ws par))]))
   \<and> (get_abstract e abstract_path = Inr a \<and> get_metadata e metadata_path = Inr m
      \<longrightarrow> DumpJson (path_join (path_join year_dir paper_id) (paper_id @ ''_abstract.json'')) a
            \<in> set (fst (paper_body e year_dir (paper_id, abstract_path, metadata_path, pdf_path))))"
  by (auto simp: get_abstract_def paper_body_def Let_def author_contents_all split: option.splits)

theorem get_abstract_result_witness:
  "requests_get site_404 ''https://papers.nips.cc/a.html'' = Some not_found
   \<and> status_code not_found \<noteq> 200
   \<and> get_abstract site_404 ''https://papers.nips.cc/a.html'' = Inr (JStr [])
   \<and> get_metadata site_404 ''https://papers.nips.cc/a.json'' = Inr (JObj [])
   \<and> DumpJson ''../data/2020/1234/1234_abstract.json'' (JStr [])
       \<in> set (fst (paper_body site_404 ''../data/2020''
                     (''1234'', ''https://papers.nips.cc/a.html'',
                      ''https://papers.nips.cc/a.json'', ''https://papers.nips.cc/a.pdf'')))
   \<and> requests_get site_ok ''https://papers.nips.cc/a.html'' = Some ok_response
   \<and> status_code ok_response = 200
   \<and> abstract_par (html ok_response) = Some ''An  abstract.''
   \<and> title_meta (html ok_response) = Some (Some ''A Title'')
   \<and> author_metas (html ok_response) = map Some [''A. Author'', ''B. Author'']
   \<and> get_abstract site_ok ''https://papers.nips.cc/a.html'' =
       Inr (JObj [(''title'', JStr ''A Title''),
                  (''authors'', JArr [JStr ''A. Author'', JStr ''B. Author'']),
                  (''abstract'', JStr ''An abstract.'')])"
proof -
  have r1: "requests_get site_404 ''https://papers.nips.cc/a.html'' = Some not_found"
    by (simp add: site_404_def)
  have s1: "status_code not_found \<noteq> 200" by (simp add: not_found_def)
  have m1: "get_metadata site_404 ''https://papers.nips.cc/a.json'' = Inr (JObj [])"
    by code_simp
  have r2: "requests_get site_ok ''https://papers.nips.cc/a.html'' = Some ok_response"
    by (simp add: site_ok_def)
  have s2: "status_code ok_response = 200"
    "abstract_par (html ok_response) = Some ''An  abstract.''"
    "title_meta (html ok_response) = Some (Some ''A Title'')"
    "author_metas (html ok_response) = map Some [''A. Author'', ''B. Author'']"
    by (simp_all add: ok_response_def paper_page_def)
  have c: "collapse_ws ''An  abstract.'' = ''An abstract.''" by code_simp
  have p: "path_join (path_join ''../data/2020'' ''1234'') (''1234'' @ ''_abstract.json'') =
           ''../data/2020/1234/1234_abstract.json''" by code_simp
  note a = get_abstract_result[OF r1, of _ _ _ "JStr []" "''https://papers.nips.cc/a.json''"
             "JObj []" "''../data/2020''" "''1234''" "''https://papers.nips.cc/a.pdf''"]
  note b = get_abstract_result[OF r2, of "''An  abstract.''" "''A Title''"
             "[''A. Author'', ''B. Author'']"]
  show ?thesis using a b r1 s1 m1 r2 s2 c p by simp
qed

text \<open>
  Claim C5 as stated fails: on status 404 the abstract result is the empty string and not
  the empty mapping.
\<close>

theorem abstract_failure_is_empty_string:
  "status_code not_found = 404
   \<and> get_abstract site_404 ''https://papers.nips.cc/paper_files/paper/2020/hash/1234-Abstract.html''
       = Inr (JStr [])
   \<and> get_abstract site_404 ''https://papers.nips.cc/paper_files/paper/2020/hash/1234-Abstract.html''
       \<noteq> Inr (JObj [])"
  by code_simp

text \<open>
  Claim C6, as amended. When the PDF request raises, or comes with a status from 400 to
  599 (those for which \<open>raise_for_status\<close> raises), the PDF fetcher returns \<open>None\<close> and the
  run continues past the fetch: both JSON files are written and the PDF file is opened.
  The write of \<open>None\<close> to it is unguarded and raises TypeError, which ends the loop over
  the papers; no byte is written.
  A response with any other status, 304 for one, is no failure for the fetcher: its
  content is returned and written, and the body ends by \<^verbatim>\<open>break\<close>.
\<close>

theorem pdf_failure_raises_on_write:
  "(requests_get e pdf_path = None
      \<or> requests_get e pdf_path = Some r \<and> 400 \<le> status_code r \<and> status_code r < 600
    \<longrightarrow> get_pdf e pdf_path = None
      \<and> (get_abstract e abstract_path = Inr a \<and> get_metadata e metadata_path = Inr m
         \<longrightarrow> paper_body e year_dir (paper_id, abstract_path, metadata_path, pdf_path) =
               ([MakeDirs (path_join year_dir paper_id),
                 HttpGet abstract_path, HttpGet metadata_path, HttpGet pdf_path,
                 DumpJson (path_join (path_join year_dir paper_id) (paper_id @ ''_abstract.json'')) a,
                 DumpJson (path_join (path_join year_dir paper_id) (paper_id @ ''_metadata.json'')) m,
                 OpenWB (path_join (path_join year_dir paper_id) (paper_id @ ''.pdf''))],
                Inl (Uncaught TypeError))
           \<and> snd (for_papers e year_dir
                     ((paper_id, abstract_path, metadata_path, pdf_path) # ps)) =
               Inl (Uncaught TypeError)))
   \<and> (requests_get e pdf_path = Some r \<and> \<not> (400 \<le> status_code r \<and> status_code r < 600)
    \<longrightarrow> get_pdf e pdf_path = Some (content r)
      \<and> (get_abstract e abstract_path = Inr a \<and> get_metadata e metadata_path = Inr m
         \<longrightarrow> paper_body e year_dir (paper_id, abstract_path, metadata_path, pdf_path) =
               ([MakeDirs (path_join year_dir paper_id),
                 HttpGet abstract_path, HttpGet metadata_path, HttpGet pdf_path,
                 DumpJson (path_join (path_join year_dir paper_id) (paper_id @ ''_abstract.json'')) a,
                 DumpJson (path_join (path_join year_dir paper_id) (paper_id @ ''_metadata.json'')) m,
                 OpenWB (path_join (path_join year_dir paper_id) (paper_id @ ''.pdf'')),
                 WriteBytes (path_join (path_join year_dir paper_id) (paper_id @ ''.pdf''))
                   (content r)],
                Inr Break)))"
proof -
  let ?p = "(paper_id, abstract_path, metadata_path, pdf_path)"
  let ?evs = "[MakeDirs (path_join year_dir paper_id),
               HttpGet abstract_path, HttpGet metadata_path, HttpGet pdf_path,
               DumpJson (path_join (path_join year_dir paper_id) (paper_id @ ''_abstract.json'')) a,
               DumpJson (path_join (path_join year_dir paper_id) (paper_id @ ''_metadata.json'')) m,
               OpenWB (path_join (path_join year_dir paper_id) (paper_id @ ''.pdf''))]"
  have none: "get_pdf e pdf_path = None"
    if "requests_get e pdf_path = None
        \<or> requests_get e pdf_path = Some r \<and> 400 \<le> status_code r \<and> status_code r < 600"
    using that by (auto simp: get_pdf_def raise_for_status_def)
  have raises: "paper_body e year_dir ?p = (?evs, Inl (Uncaught TypeError))
                \<and> snd (for_papers e year_dir (?p # ps)) = Inl (Uncaught TypeError)"
    if n: "get_pdf e pdf_path = None"
      and am: "get_abstract e abstract_path = Inr a" "get_metadata e metadata_path = Inr m"
  proof -
    have b: "paper_body e year_dir ?p = (?evs, Inl (Uncaught TypeError))"
      using n am by (simp add: paper_body_def Let_def)
    then have "snd (for_papers e year_dir (?p # ps)) = Inl (Uncaught TypeError)"
      by (simp only: for_papers_first snd_conv) simp
    with b show ?thesis by blast
  qed
  have some: "get_pdf e pdf_path = Some (content r)"
    if "requests_get e pdf_path = Some r" "\<not> (400 \<le> status_code r \<and> status_code r < 600)"
    using that by (simp add: get_pdf_def raise_for_status_def)
  have writes: "paper_body e year_dir ?p =
          (?evs @ [WriteBytes (path_join (path_join year_dir paper_id) (paper_id @ ''.pdf''))
                     (content r)], Inr Break)"
    if s: "get_pdf e pdf_path = Some (content r)"
      and am: "get_abstract e abstract_path = Inr a" "get_metadata e metadata_path = Inr m"
    using s am by (simp add: paper_body_def Let_def)
  show ?thesis
  proof (intro conjI impI)
    assume f: "requests_get e pdf_path = None
        \<or> requests_get e pdf_path = Some r \<and> 400 \<le> status_code r \<and> status_code r < 600"
    show "get_pdf e pdf_path = None" using f by (rule none)
    assume am: "get_abstract e abstract_path = Inr a \<and> get_metadata e metadata_path = Inr m"
    show "paper_body e year_dir ?p = (?evs, Inl (Uncaught TypeError))"
      using raises[OF none[OF f]] am by blast
    show "snd (for_papers e year_dir (?p # ps)) = Inl (Uncaught TypeError)"
      using raises[OF none[OF f]] am by blast
  next
    assume o: "requests_get e pdf_path = Some r \<and> \<not> (400 \<le> status_code r \<and> status_code r < 600)"
    show "get_pdf e pdf_path = Some (content r)" using o some by blast
    assume am: "get_abstract e abstract_path = Inr a \<and> get_metadata e metadata_path = Inr m"
    show "paper_body e year_dir ?p =
            ([MakeDirs (path_join year_dir paper_id),
              HttpGet abstract_path, HttpGet metadata_path, HttpGet pdf_path,
              DumpJson (path_join (path_join year_dir paper_id) (paper_id @ ''_abstract.json'')) a,
              DumpJson (path_join (path_join year_dir paper_id) (paper_id @ ''_metadata.json'')) m,
              OpenWB (path_join (path_join year_dir paper_id) (paper_id @ ''.pdf'')),
              WriteBytes (path_join (path_join year_dir paper_id) (paper_id @ ''.pdf''))
                (content r)],
             Inr Break)"
      using writes some o am by simp
  qed
qed

theorem pdf_failure_raises_on_write_witness:
  "requests_get site_404 ''https://papers.nips.cc/a.pdf'' = Some not_found
   \<and> 400 \<le> status_code not_found \<and> status_code not_found < 600
   \<and> get_abstract site_404 ''https://papers.nips.cc/a.html'' = Inr (JStr [])
   \<and> get_metadata site_404 ''https://papers.nips.cc/a.json'' = Inr (JObj [])
   \<and> get_pdf site_404 ''https://papers.nips.cc/a.pdf'' = None
   \<and> paper_body site_404 ''../data/2020''
        (''1234'', ''https://papers.nips.cc/a.html'', ''https://papers.nips.cc/a.json'',
         ''https://papers.nips.cc/a.pdf'') =
       ([MakeDirs ''../data/2020/1234'',
         HttpGet ''https://papers.nips.cc/a.html'', HttpGet ''https://papers.nips.cc/a.json'',
         HttpGet ''https://papers.nips.cc/a.pdf'',
         DumpJson ''../data/2020/1234/1234_abstract.json'' (JStr []),
         DumpJson ''../data/2020/1234/1234_metadata.json'' (JObj []),
         OpenWB ''../data/2020/1234/1234.pdf''],
        Inl (Uncaught TypeError))
   \<and> requests_get site_304 ''https://papers.nips.cc/a.pdf'' = Some not_modified
   \<and> \<not> (400 \<le> status_code not_modified \<and> status_code not_modified < 600)
   \<and> get_abstract site_304 ''https://papers.nips.cc/a.html'' = Inr (JStr [])
   \<and> get_metadata site_304 ''https://papers.nips.cc/a.json'' = Inr (JObj [])
   \<and> get_pdf site_304 ''https://papers.nips.cc/a.pdf'' = Some (content not_modified)
   \<and> paper_body site_304 ''../data/2020''
        (''1234'', ''https://papers.nips.cc/a.html'', ''https://papers.nips.cc/a.json'',
         ''https://papers.nips.cc/a.pdf'') =
       ([MakeDirs ''../data/2020/1234'',
         HttpGet ''https://papers.nips.cc/a.html'', HttpGet ''https://papers.nips.cc/a.json'',
         HttpGet ''https://papers.nips.cc/a.pdf'',
         DumpJson ''../data/2020/1234/1234_abstract.json'' (JStr []),
         DumpJson ''../data/2020/1234/1234_metadata.json'' (JObj []),
         OpenWB ''../data/2020/1234/1234.pdf'',
         WriteBytes ''../data/2020/1234/1234.pdf'' (content not_modified)],
        Inr Break)"
proof -
  have r: "requests_get site_404 ''https://papers.nips.cc/a.pdf'' = Some not_found"
    by (simp add: site_404_def)
  have s: "400 \<le> status_code not_found \<and> status_code not_found < 600"
    by (simp add: not_found_def)
  have a: "get_abstract site_404 ''https://papers.nips.cc/a.html'' = Inr (JStr [])"
    by code_simp
  have m: "get_metadata site_404 ''https://papers.nips.cc/a.json'' = Inr (JObj [])"
    by code_simp
  have r': "requests_get site_304 ''https://papers.nips.cc/a.pdf'' = Some not_modified"
    by (simp add: site_304_def)
  have s': "\<not> (400 \<le> status_code not_modified \<and> status_code not_modified < 600)"
    by (simp add: not_modified_def)
  have a': "get_abstract site_304 ''https://papers.nips.cc/a.html'' = Inr (JStr [])"
    by code_simp
  have m': "get_metadata site_304 ''https://papers.nips.cc/a.json'' = Inr (JObj [])"
    by code_simp
  have p: "path_join ''../data/2020'' ''1234'' = ''../data/2020/1234''"
    "path_join ''../data/2020/1234'' ''1234_abstract.json'' = ''../data/2020/1234/1234_abstract.json''"
    "path_join ''../data/2020/1234'' ''1234_metadata.json'' = ''../data/2020/1234/1234_metadata.json''"
    "path_join ''../data/2020/1234'' ''1234.pdf'' = ''../data/2020/1234/1234.pdf''"
    by code_simp+
  note f = pdf_failure_raises_on_write
             [of site_404 "''https://papers.nips.cc/a.pdf''" not_found
                 "''https://papers.nips.cc/a.html''" "JStr []" "''https://papers.nips.cc/a.json''"
                 "JObj []" "''../data/2020''" "''1234''" "[]"]
  note g = pdf_failure_raises_on_write
             [of site_304 "''https://papers.nips.cc/a.pdf''" not_modified
                 "''https://papers.nips.cc/a.html''" "JStr []" "''https://papers.nips.cc/a.json''"
                 "JObj []" "''../data/2020''" "''1234''" "[]"]
  show ?thesis using f g r s a m r' s' a' m' by (simp add: p)
qed

text \<open>
  Claim C6 as stated fails for the other statuses outside 200 to 299: a response with
  status 304 is no failure for \<open>raise_for_status\<close>, so the fetcher returns its content,
  which is written, and the run goes on.
\<close>

theorem pdf_status_304_is_returned:
  "status_code not_modified = 304
   \<and> requests_get site_304 ''https://papers.nips.cc/a.pdf'' = Some not_modified
   \<and> get_pdf site_304 ''https://papers.nips.cc/a.pdf'' = Some []
   \<and> get_pdf site_304 ''https://papers.nips.cc/a.pdf'' \<noteq> None
   \<and> paper_body site_304 ''../data/2020''
        (''1234'', ''https://papers.nips.cc/a.html'', ''https://papers.nips.cc/a.json'',
         ''https://papers.nips.cc/a.pdf'') =
       ([MakeDirs ''../data/2020/1234'',
         HttpGet ''https://papers.nips.cc/a.html'', HttpGet ''https://papers.nips.cc/a.json'',
         HttpGet ''https://papers.nips.cc/a.pdf'',
         DumpJson ''../data/2020/1234/1234_abstract.json'' (JStr []),
         DumpJson ''../data/2020/1234/1234_metadata.json'' (JObj []),
         OpenWB ''../data/2020/1234/1234.pdf'',
         WriteBytes ''../data/2020/1234/1234.pdf'' []],
        Inr Break)"
  by code_simp

section \<open>Whitespace collapsing\<close>

lemma no_space_snoc: "no_space cur \<Longrightarrow> \<not> isspace a \<Longrightarrow> no_space (cur @ [a])"
  by (simp add: no_space_def)

lemma split_words_clean:
  "no_space cur \<Longrightarrow> w \<in> set (split_words cur s) \<Longrightarrow> w \<noteq> [] \<and> no_space w"
proof (induction s arbitrary: cur)
  case Nil
  then show ?case by (cases "cur = []") simp_all
next
  case (Cons a s)
  show ?case
  proof (cases "isspace a")
    case True
    have e: "no_space []" by (simp add: no_space_def)
    from True Cons.prems(2) have "w \<in> set (split_words [] s) \<or> (cur \<noteq> [] \<and> w = cur)"
      by (cases "cur = []") auto
    then show ?thesis using Cons.IH[OF e] Cons.prems(1) by blast
  next
    case False
    then have "w \<in> set (split_words (cur @ [a]) s)" using Cons.prems(2) by simp
    then show ?thesis using Cons.IH[OF no_space_snoc[OF Cons.prems(1) False]] by blast
  qed
qed

lemma split_words_word:
  "no_space w \<Longrightarrow> split_words cur (w @ s) = split_words (cur @ w) s"
  by (induction w arbitrary: cur) (auto simp: no_space_def)

lemma isspace_space: "isspace CHR '' ''"
  by (simp add: isspace_def whitespace_def)

text \<open>Joining words by single spaces and splitting again gives the words back.\<close>

lemma split_words_join:
  "(\<And>w. w \<in> set ws \<Longrightarrow> w \<noteq> [] \<and> no_space w) \<Longrightarrow>
   split_words [] (str_join '' '' ws) = ws"
proof (induction ws)
  case Nil
  then show ?case by simp
next
  case (Cons x ws)
  have x: "x \<noteq> []" "no_space x" using Cons.prems[of x] by simp_all
  have one: "split_words [] (x @ t) = split_words x t" for t
    using split_words_word[OF x(2), of "[]" t] by simp
  show ?case
  proof (cases ws)
    case Nil
    then show ?thesis using x(1) one[of "[]"] by simp
  next
    case ws: (Cons y ys)
    have rest: "split_words [] (str_join '' '' ws) = ws"
    proof (rule Cons.IH)
      fix w assume "w \<in> set ws"
      then show "w \<noteq> [] \<and> no_space w" using Cons.prems[of w] by simp
    qed
    have "split_words [] (x @ '' '' @ str_join '' '' ws) =
          split_words x ('' '' @ str_join '' '' ws)"
      by (rule one)
    also have "\<dots> = x # split_words [] (str_join '' '' ws)"
      using x(1) by (simp add: isspace_space)
    finally have "split_words [] (x @ '' '' @ str_join '' '' ws) = x # ws"
      using rest by simp
    moreover have "str_join '' '' (x # ws) = x @ '' '' @ str_join '' '' ws"
      unfolding ws by simp
    ultimately show ?thesis by simp
  qed
qed

text \<open>
  Claim C9. The whitespace collapsing that \<open>get_abstract\<close> applies to the abstract text,
  \<^verbatim>\<open>" ".join(text.split())\<close>, is idempotent: collapsing a collapsed string changes
  nothing.
\<close>

theorem collapse_ws_idempotent: "collapse_ws (collapse_ws s) = collapse_ws s"
proof -
  have "split_words [] (str_join '' '' (split_words [] s)) = split_words [] s"
  proof (rule split_words_join)
    fix w assume "w \<in> set (split_words [] s)"
    moreover have "no_space []" by (simp add: no_space_def)
    ultimately show "w \<noteq> [] \<and> no_space w" using split_words_clean by blast
  qed
  then show ?thesis by (simp add: collapse_ws_def str_split_ws_def)
qed

section \<open>Year Resolver\<close>























end
